theory Spec2Isabelle
  imports Complex_Main
begin

section \<open>Phone normalization (connectors/whatsapp/client.ts)\<close>

text \<open>
  \<^verbatim>\<open>phone.replace(/\D/g, "")\<close> keeps the ASCII digits of the string and drops every other
  character. JavaScript's \<^verbatim>\<open>\D\<close> (without the unicode flag) is the complement of
  \<^verbatim>\<open>[0-9]\<close>.
\<close>

definition is_digit :: "char \<Rightarrow> bool" where
  "is_digit c = (c \<in> set ''0123456789'')"

text \<open>
  \<^verbatim>\<open>startsWith(p)\<close> is \<open>take (length p) s = p\<close>; \<^verbatim>\<open>substring(2, 4)\<close> is
  \<open>take 2 (drop 2 s)\<close>; \<^verbatim>\<open>substring(4)\<close> is \<open>drop 4 s\<close>.
\<close>

definition startsWith :: "string \<Rightarrow> string \<Rightarrow> bool" where
  "startsWith s p = (take (length p) s = p)"

definition normalizePhone :: "string \<Rightarrow> string" where
  "normalizePhone phone =
     (let digits = filter is_digit phone;
          digits = (if length digits = 10 \<or> length digits = 11 then ''55'' @ digits else digits)
      in if length digits = 12 \<and> startsWith digits ''55'' then
           (let ddd = take 2 (drop 2 digits);
                number = drop 4 digits
            in if length number = 8 \<and> \<not> startsWith number ''0''
               then ''55'' @ ddd @ ''9'' @ number
               else digits)
         else digits)"

section \<open>Data model (db/schemas/types.ts, db/migrate.ts)\<close>

text \<open>
  Tables are lists of rows. A row's primary key (\<^verbatim>\<open>id UUID DEFAULT uuid_generate_v4()\<close>) is
  its position in the table: the store hands out the next free position on insert, rows
  are never deleted, so keys are unique by construction. Timestamps are milliseconds
  since the epoch (\<^verbatim>\<open>Date.getTime()\<close>). A nullable column is an \<open>option\<close>.
\<close>

datatype json = JNull | JBool bool | JNum int | JStr string | JArr "json list" | JObj "(string \<times> json) list"

datatype lead_source = src_meta_ads | src_google_ads | src_website | src_instagram | src_whatsapp | src_referral | src_architect

datatype funnel = architects | end_client | developers

datatype stage = triagem | qualificado | reuniao | proposta | negociacao | fechado | perdido

datatype client_type = ct_architect | ct_end_client | ct_developer | ct_contractor

datatype project_type = residential | commercial | corporate

datatype project_stage = planta | obra_iniciada | acabamentos

fun lead_source_str :: "lead_source \<Rightarrow> string" where
  "lead_source_str src_meta_ads = ''meta_ads''"
| "lead_source_str src_google_ads = ''google_ads''"
| "lead_source_str src_website = ''website''"
| "lead_source_str src_instagram = ''instagram''"
| "lead_source_str src_whatsapp = ''whatsapp''"
| "lead_source_str src_referral = ''referral''"
| "lead_source_str src_architect = ''architect''"

text \<open>The interface \<^verbatim>\<open>RawLeadInput\<close> of lead-ingestion.ts; an optional property is an \<open>option\<close>.\<close>

record RawLeadInput =
  name :: string
  email :: "string option"
  phone :: string
  source :: lead_source
  client_type :: "client_type option"
  project_type :: "project_type option"
  project_stage :: "project_stage option"
  location :: "string option"
  estimated_deadline :: "string option"
  estimated_ticket :: "int option"
  utm_source :: "string option"
  utm_medium :: "string option"
  utm_campaign :: "string option"
  utm_content :: "string option"
  external_id :: "string option"

text \<open>
  A row of \<^verbatim>\<open>leads\<close>. It has every property of \<^verbatim>\<open>RawLeadInput\<close> under the same name and
  type (\<^verbatim>\<open>undefined\<close> is stored as \<^verbatim>\<open>null\<close>), so it is declared as an extension of that
  record and shares its field names; the columns the pipeline adds follow.
\<close>

record Lead = RawLeadInput +
  funnel :: funnel
  stage :: stage
  phone_normalized :: string
  score :: int
  pipedrive_deal_id :: "int option"
  pipedrive_person_id :: "int option"
  created_at :: int
  updated_at :: int
  qualified_at :: "int option"
  closed_at :: "int option"

datatype activity_type = t_sla_start | t_sla_breach | t_follow_up | t_note | t_escalation_slack | t_escalation_critical

record activity =
  act_lead_id :: nat
  act_type :: activity_type
  description :: string
  metadata :: "(string \<times> json) list"

datatype sla_type = response_5min | qualification_15min | meeting_48h | proposal_72h | handoff_24h

record sla_event =
  sla_lead_id :: nat
  sla_type :: sla_type
  started_at :: int
  deadline_at :: int
  completed_at :: "int option"
  breached :: bool
  notified :: bool

datatype webhook_status = received | processed | failed | duplicate

record webhook_log =
  wh_source :: string
  event_type :: string
  payload :: json
  wh_status :: webhook_status
  idempotency_key :: string
  wh_error :: "string option"

datatype channel = ch_whatsapp | ch_email

record follow_up_step =
  step_sequence_id :: nat
  step_order :: int
  delay_minutes :: int
  step_channel :: channel
  template :: string

datatype execution_status = active | completed | cancelled | responded

record follow_up_execution =
  exec_lead_id :: nat
  exec_sequence_id :: nat
  current_step :: int
  exec_status :: execution_status
  next_run_at :: "int option"
  exec_completed_at :: "int option"

section \<open>Outbound capabilities and the environment\<close>

text \<open>
  The messaging and alerting connectors are capability interfaces:
  \<^verbatim>\<open>sendGroupMessage(groupId, text)\<close>, \<^verbatim>\<open>sendTextMessage(phone, text)\<close> and
  \<^verbatim>\<open>sendSlackAlert(severity, title, details)\<close>. A message text is a template of the source
  with values interpolated; the model keeps which template it is and the interpolated
  values instead of the rendered string. Templates written for one row of \<^verbatim>\<open>sla_events\<close> or
  \<^verbatim>\<open>follow_up_executions\<close> also record that row's id (a ghost value: the rendered text
  does not show it), so that a property can speak of the messages of one row.
\<close>

record EscalationContext =
  ctx_leadId :: nat
  ctx_leadName :: string
  ctx_slaType :: sla_type
  ctx_minutesSinceBreach :: int

datatype message =
    SlaBreachText nat string string sla_type int
  | NewLeadText string string lead_source "project_type option" "string option"
  | EscalationSlackText nat EscalationContext
  | EscalationCriticalText nat EscalationContext "int option"
  | FollowUpText nat string

datatype severity = info | warning | critical

datatype outbound =
    GroupMessage string message
  | TextMessage string message
  | SlackAlert severity message

text \<open>
  Errors are values. A driver error carries the SQLSTATE in its \<^verbatim>\<open>code\<close> property (absent
  for an error that is not the database's); \<^verbatim>\<open>executeTakeFirstOrThrow\<close> raises
  \<^verbatim>\<open>NoResultError\<close>.
\<close>

datatype error = DbError "string option" | NoResultError

fun err_code :: "error \<Rightarrow> string option" where
  "err_code (DbError c) = c"
| "err_code NoResultError = None"

text \<open>
  What a run reads from outside the store: the clock, the process environment, whether
  the transport accepts an outbound call (\<open>False\<close>: the awaited promise rejects), the
  CRM's answers (\<open>None\<close>: the call rejects), the template engine (\<open>None\<close>: it throws),
  the lead assembled from Meta's Graph API answer for a leadgen id (\<^verbatim>\<open>fetchLeadData\<close>
  followed by the field mapping of the webhook handler; \<open>None\<close>: the fetch rejects), and
  a failure injected into the insert into \<^verbatim>\<open>webhook_logs\<close> (\<open>None\<close>: the store is healthy).
  Every other statement against the store is taken to succeed.
\<close>

record env =
  now :: int
  WHATSAPP_SDR_GROUP :: "string option"
  WHATSAPP_OPS_GROUP :: "string option"
  delivers :: "outbound \<Rightarrow> bool"
  findPersonByPhone :: "string \<Rightarrow> int option option"
  createPerson :: "string \<Rightarrow> string option \<Rightarrow> string \<Rightarrow> int option"
  createDeal :: "string \<Rightarrow> lead_source \<Rightarrow> int \<Rightarrow> int option \<Rightarrow> int option"
  handlebars :: "string \<Rightarrow> string \<Rightarrow> string option \<Rightarrow> project_type option \<Rightarrow> funnel \<Rightarrow> string option"
  fetchLeadInput :: "string \<Rightarrow> RawLeadInput option"
  insert_fault :: "error option"

text \<open>The store, and the log of outbound calls attempted so far (in order).\<close>

record world =
  leads :: "Lead list"
  activities :: "activity list"
  sla_events :: "sla_event list"
  webhook_logs :: "webhook_log list"
  follow_up_steps :: "follow_up_step list"
  follow_up_executions :: "follow_up_execution list"
  outbox :: "outbound list"

text \<open>
  An awaited outbound call: the attempt is logged; the result says whether it resolved.
\<close>

definition send :: "env \<Rightarrow> outbound \<Rightarrow> world \<Rightarrow> bool \<times> world" where
  "send e m w = (delivers e m, w\<lparr>outbox := outbox w @ [m]\<rparr>)"

text \<open>\<^verbatim>\<open>UPDATE t SET ... WHERE id = i\<close>: no row matches an id the table does not hold.\<close>

definition update_row :: "nat \<Rightarrow> ('a \<Rightarrow> 'a) \<Rightarrow> 'a list \<Rightarrow> 'a list" where
  "update_row i f xs = (if i < length xs then xs[i := f (xs ! i)] else xs)"

text \<open>\<^verbatim>\<open>executeTakeFirst()\<close>: the id of the first row that satisfies the condition.\<close>

primrec find_row :: "('a \<Rightarrow> bool) \<Rightarrow> 'a list \<Rightarrow> nat option" where
  "find_row P [] = None"
| "find_row P (x # xs) = (if P x then Some 0 else map_option Suc (find_row P xs))"

text \<open>A number in a template literal: its decimal digits.\<close>

definition digit_char :: "nat \<Rightarrow> char" where
  "digit_char n = ''0123456789'' ! (n mod 10)"

function show_nat :: "nat \<Rightarrow> string" where
  "show_nat n = (if n < 10 then [digit_char n] else show_nat (n div 10) @ [digit_char n])"
  by pat_completeness auto
termination
  by (relation "measure (\<lambda>n. n)") auto

definition show_int :: "int \<Rightarrow> string" where
  "show_int k = (if k < 0 then ''-'' @ show_nat (nat (- k)) else show_nat (nat k))"

text \<open>
  JavaScript truthiness of a nullable string (\<^verbatim>\<open>null\<close>, \<^verbatim>\<open>undefined\<close> and \<^verbatim>\<open>""\<close> are
  falsy) and of a nullable number (\<^verbatim>\<open>null\<close>, \<^verbatim>\<open>undefined\<close> and \<^verbatim>\<open>0\<close> are falsy). An
  enumeration's values are non-empty strings, so such a property is truthy when present.
\<close>

definition truthy_str :: "string option \<Rightarrow> bool" where
  "truthy_str s = (case s of None \<Rightarrow> False | Some t \<Rightarrow> t \<noteq> [])"

definition truthy_num :: "int option \<Rightarrow> bool" where
  "truthy_num n = (case n of None \<Rightarrow> False | Some k \<Rightarrow> k \<noteq> 0)"

definition present :: "'a option \<Rightarrow> bool" where
  "present v = (case v of None \<Rightarrow> False | Some _ \<Rightarrow> True)"

text \<open>
  A \<^verbatim>\<open>NUMERIC\<close> column reaches the code as text: the driver (\<^verbatim>\<open>pg\<close>, for which
  \<^verbatim>\<open>db/connection.ts\<close> registers no type parser) returns the decimal string of the stored
  number, and \<^verbatim>\<open>NULL\<close> as \<^verbatim>\<open>null\<close>. So a value read from \<^verbatim>\<open>leads.estimated_ticket\<close> is
  tested for truthiness as a string, and the string of a number, \<^verbatim>\<open>"0"\<close> included, is
  not empty. A value the code has not read back (a property of the input) is a number.
\<close>

definition numeric_text :: "int option \<Rightarrow> string option" where
  "numeric_text n = map_option show_int n"

section \<open>Lead scoring (services/lead-scoring.ts)\<close>

fun sourceScores :: "lead_source \<Rightarrow> int option" where
  "sourceScores src_architect = Some 25"
| "sourceScores src_referral = Some 20"
| "sourceScores src_website = Some 15"
| "sourceScores src_instagram = Some 12"
| "sourceScores src_meta_ads = Some 10"
| "sourceScores src_google_ads = Some 10"
| "sourceScores src_whatsapp = Some 8"

text \<open>\<^verbatim>\<open>Math.round(x)\<close> is \<open>\<lfloor>x + 1/2\<rfloor>\<close>.\<close>

definition Math_round :: "real \<Rightarrow> int" where
  "Math_round x = \<lfloor>x + 1 / 2\<rfloor>"

definition scoreLead :: "'a RawLeadInput_scheme \<Rightarrow> int" where
  "scoreLead input =
     (let score = 0;
          score = score + (case sourceScores (source input) of Some v \<Rightarrow> v | None \<Rightarrow> 5);
          score = score +
            (if client_type input = Some ct_architect then 20
             else if client_type input = Some ct_developer then 15
             else if client_type input = Some ct_end_client then 10
             else 0);
          score = score +
            (if project_stage input = Some acabamentos then 20
             else if project_stage input = Some obra_iniciada then 12
             else if project_stage input = Some planta then 5
             else 0);
          score = score +
            (case estimated_ticket input of
               None \<Rightarrow> 0
             | Some t \<Rightarrow>
                 if t = 0 then 0
                 else if t \<ge> 100000 then 20
                 else if t \<ge> 50000 then 15
                 else if t \<ge> 20000 then 10
                 else 5);
          fields =
            [truthy_str (email input), present (client_type input), present (project_type input),
             present (project_stage input), truthy_str (location input),
             truthy_str (estimated_deadline input), truthy_num (estimated_ticket input)];
          filled = length (filter (\<lambda>b. b) fields);
          score = score + Math_round ((real filled / real (length fields)) * 15)
      in min score 100)"

section \<open>SLA timers (services/sla-monitor.ts)\<close>

fun SLA_DURATIONS :: "sla_type \<Rightarrow> int" where
  "SLA_DURATIONS response_5min = 5 * 60 * 1000"
| "SLA_DURATIONS qualification_15min = 15 * 60 * 1000"
| "SLA_DURATIONS meeting_48h = 48 * 60 * 60 * 1000"
| "SLA_DURATIONS proposal_72h = 72 * 60 * 60 * 1000"
| "SLA_DURATIONS handoff_24h = 24 * 60 * 60 * 1000"

fun SLA_LABELS :: "sla_type \<Rightarrow> string" where
  "SLA_LABELS response_5min = ''Resposta (5 min)''"
| "SLA_LABELS qualification_15min = ''Qualificacao (15 min)''"
| "SLA_LABELS meeting_48h = ''Reuniao (48h)''"
| "SLA_LABELS proposal_72h = ''Proposta (72h)''"
| "SLA_LABELS handoff_24h = ''Handoff Obras (24h)''"

fun sla_type_str :: "sla_type \<Rightarrow> string" where
  "sla_type_str response_5min = ''response_5min''"
| "sla_type_str qualification_15min = ''qualification_15min''"
| "sla_type_str meeting_48h = ''meeting_48h''"
| "sla_type_str proposal_72h = ''proposal_72h''"
| "sla_type_str handoff_24h = ''handoff_24h''"

text \<open>\<^verbatim>\<open>breached\<close> and \<^verbatim>\<open>notified\<close> take the column default \<^verbatim>\<open>FALSE\<close>.\<close>

definition startSla :: "env \<Rightarrow> nat \<Rightarrow> sla_type \<Rightarrow> world \<Rightarrow> world" where
  "startSla e leadId slaType w =
     (let deadline = now e + SLA_DURATIONS slaType
      in w\<lparr>sla_events := sla_events w @
           [\<lparr>sla_lead_id = leadId, sla_type = slaType, started_at = now e,
             deadline_at = deadline, completed_at = None, breached = False,
             notified = False\<rparr>]\<rparr>)"

section \<open>Lead ingestion (services/lead-ingestion.ts)\<close>

record IngestionResult =
  lead :: Lead
  isNew :: bool
  pipedriveDealId :: "int option"

fun inferFunnel :: "client_type option \<Rightarrow> funnel" where
  "inferFunnel (Some ct_architect) = architects"
| "inferFunnel (Some ct_developer) = developers"
| "inferFunnel (Some ct_contractor) = developers"
| "inferFunnel _ = end_client"

text \<open>
  \<^verbatim>\<open>notifyNewLead\<close> of the WhatsApp connector: without a configured group it returns
  without sending. The first component says whether the call resolved.
\<close>

definition notifyNewLead ::
  "env \<Rightarrow> string \<Rightarrow> string \<Rightarrow> lead_source \<Rightarrow> project_type option \<Rightarrow> string option \<Rightarrow> world
   \<Rightarrow> bool \<times> world" where
  "notifyNewLead e nm ph src pt loc w =
     (if \<not> truthy_str (WHATSAPP_SDR_GROUP e) then (True, w)
      else case WHATSAPP_SDR_GROUP e of
             None \<Rightarrow> (True, w)
           | Some groupId \<Rightarrow> send e (GroupMessage groupId (NewLeadText nm ph src pt loc)) w)"

text \<open>
  \<^verbatim>\<open>syncToPipedrive\<close>: \<open>None\<close> when one of the CRM calls rejects (nothing was written
  then), else the id of the deal created.
\<close>

definition syncToPipedrive :: "env \<Rightarrow> nat \<Rightarrow> Lead \<Rightarrow> world \<Rightarrow> int option \<times> world" where
  "syncToPipedrive e i ld w =
     (case findPersonByPhone e (phone_normalized ld) of
        None \<Rightarrow> (None, w)
      | Some found \<Rightarrow>
          (case (case found of
                   Some p \<Rightarrow> Some p
                 | None \<Rightarrow> createPerson e (name ld) (email ld) (phone ld)) of
             None \<Rightarrow> (None, w)
           | Some person \<Rightarrow>
               (case createDeal e (name ld) (source ld) person (estimated_ticket ld) of
                  None \<Rightarrow> (None, w)
                | Some deal \<Rightarrow>
                    (Some deal,
                     w\<lparr>leads := update_row i
                        (\<lambda>l. l\<lparr>pipedrive_person_id := Some person, pipedrive_deal_id := Some deal\<rparr>)
                        (leads w)\<rparr>))))"

text \<open>
  The \<^verbatim>\<open>updates\<close> object of \<^verbatim>\<open>mergeLead\<close>, as the list of its properties in insertion
  order.
\<close>

datatype lead_update =
    upd_updated_at int
  | upd_email string
  | upd_client_type client_type
  | upd_project_type project_type
  | upd_project_stage project_stage
  | upd_location string
  | upd_estimated_ticket int

fun apply_update :: "lead_update \<Rightarrow> Lead \<Rightarrow> Lead" where
  "apply_update (upd_updated_at t) l = l\<lparr>updated_at := t\<rparr>"
| "apply_update (upd_email v) l = l\<lparr>email := Some v\<rparr>"
| "apply_update (upd_client_type v) l = l\<lparr>client_type := Some v\<rparr>"
| "apply_update (upd_project_type v) l = l\<lparr>project_type := Some v\<rparr>"
| "apply_update (upd_project_stage v) l = l\<lparr>project_stage := Some v\<rparr>"
| "apply_update (upd_location v) l = l\<lparr>location := Some v\<rparr>"
| "apply_update (upd_estimated_ticket v) l = l\<lparr>estimated_ticket := Some v\<rparr>"

fun update_key :: "lead_update \<Rightarrow> string" where
  "update_key (upd_updated_at _) = ''updated_at''"
| "update_key (upd_email _) = ''email''"
| "update_key (upd_client_type _) = ''client_type''"
| "update_key (upd_project_type _) = ''project_type''"
| "update_key (upd_project_stage _) = ''project_stage''"
| "update_key (upd_location _) = ''location''"
| "update_key (upd_estimated_ticket _) = ''estimated_ticket''"

text \<open>
  \<^verbatim>\<open>if (!existing.f && input.f) updates.f = input.f\<close>, for a string, an enumeration and a
  number; \<^verbatim>\<open>existing\<close> is a row read from the store, so its number is the text of a
  \<^verbatim>\<open>NUMERIC\<close>.
\<close>

definition merge_str :: "string option \<Rightarrow> string option \<Rightarrow> (string \<Rightarrow> lead_update) \<Rightarrow> lead_update list" where
  "merge_str old new upd =
     (case new of
        None \<Rightarrow> []
      | Some v \<Rightarrow> if \<not> truthy_str old \<and> v \<noteq> [] then [upd v] else [])"

definition merge_enum :: "'a option \<Rightarrow> 'a option \<Rightarrow> ('a \<Rightarrow> lead_update) \<Rightarrow> lead_update list" where
  "merge_enum old new upd =
     (case new of
        None \<Rightarrow> []
      | Some v \<Rightarrow> if \<not> present old then [upd v] else [])"

definition merge_num :: "int option \<Rightarrow> int option \<Rightarrow> (int \<Rightarrow> lead_update) \<Rightarrow> lead_update list" where
  "merge_num old new upd =
     (case new of
        None \<Rightarrow> []
      | Some v \<Rightarrow> if \<not> truthy_str (numeric_text old) \<and> v \<noteq> 0 then [upd v] else [])"

definition merge_updates :: "env \<Rightarrow> Lead \<Rightarrow> RawLeadInput \<Rightarrow> lead_update list" where
  "merge_updates e existing input =
     [upd_updated_at (now e)]
     @ merge_str (email existing) (email input) upd_email
     @ merge_enum (client_type existing) (client_type input) upd_client_type
     @ merge_enum (project_type existing) (project_type input) upd_project_type
     @ merge_enum (project_stage existing) (project_stage input) upd_project_stage
     @ merge_str (location existing) (location input) upd_location
     @ merge_num (estimated_ticket existing) (estimated_ticket input) upd_estimated_ticket"

text \<open>\<^verbatim>\<open>mergeLead(existing, input)\<close>; \<open>i\<close> is \<^verbatim>\<open>existing.id\<close>.\<close>

definition mergeLead ::
  "env \<Rightarrow> nat \<Rightarrow> Lead \<Rightarrow> RawLeadInput \<Rightarrow> world \<Rightarrow> (error + IngestionResult) \<times> world" where
  "mergeLead e i existing input w =
     (let updates = merge_updates e existing input;
          w1 = (if length updates > 1
                then w\<lparr>leads := update_row i (fold apply_update updates) (leads w)\<rparr>
                else w);
          w2 = w1\<lparr>activities := activities w1 @
                 [\<lparr>act_lead_id = i, act_type = t_note,
                   description = ''Duplicate contact from '' @ lead_source_str (source input) @ '', data merged'',
                   metadata = [(''source'', JStr (lead_source_str (source input))),
                               (''merged_fields'', JArr (map (\<lambda>u. JStr (update_key u)) updates))]\<rparr>]\<rparr>
      in if i < length (leads w2)
         then (Inr \<lparr>lead = leads w2 ! i, isNew = False, pipedriveDealId = None\<rparr>, w2)
         else (Inl NoResultError, w2))"

definition ingestLead :: "env \<Rightarrow> RawLeadInput \<Rightarrow> world \<Rightarrow> (error + IngestionResult) \<times> world" where
  "ingestLead e input w =
     (let phoneNormalized = normalizePhone (phone input)
      in case find_row (\<lambda>l. phone_normalized l = phoneNormalized) (leads w) of
           Some i \<Rightarrow> mergeLead e i (leads w ! i) input w
         | None \<Rightarrow>
             (let fnl = inferFunnel (client_type input);
                  sc = scoreLead input;
                  i = length (leads w);
                  ld = \<lparr>name = name input, email = email input, phone = phone input,
                        source = source input, client_type = client_type input,
                        project_type = project_type input, project_stage = project_stage input,
                        location = location input, estimated_deadline = estimated_deadline input,
                        estimated_ticket = estimated_ticket input, utm_source = utm_source input,
                        utm_medium = utm_medium input, utm_campaign = utm_campaign input,
                        utm_content = utm_content input, external_id = external_id input,
                        funnel = fnl, stage = triagem, phone_normalized = phoneNormalized,
                        score = sc, pipedrive_deal_id = None, pipedrive_person_id = None,
                        created_at = now e, updated_at = now e, qualified_at = None,
                        closed_at = None\<rparr>;
                  w1 = w\<lparr>leads := leads w @ [ld]\<rparr>;
                  w2 = w1\<lparr>activities := activities w1 @
                         [\<lparr>act_lead_id = i, act_type = t_sla_start,
                           description = ''Lead received from '' @ lead_source_str (source input),
                           metadata = (''source'', JStr (lead_source_str (source input))) #
                             (case utm_campaign input of
                                None \<Rightarrow> []
                              | Some c \<Rightarrow> [(''utm_campaign'', JStr c)])\<rparr>]\<rparr>;
                  synced = syncToPipedrive e i ld w2;
                  w3 = startSla e i response_5min (snd synced);
                  w4 = snd (notifyNewLead e (name ld) (phone ld) (source ld) (project_type ld)
                              (location ld) w3)
              in (Inr \<lparr>lead = ld, isNew = True, pipedriveDealId = fst synced\<rparr>, w4)))"

section \<open>Idempotency guard (services/webhook-guard.ts)\<close>

text \<open>
  The insert into \<^verbatim>\<open>webhook_logs\<close>. The unique index \<^verbatim>\<open>idx_webhook_idempotency\<close> makes the
  store reject a row whose key the table already holds, with SQLSTATE 23505.
\<close>

definition insert_webhook_log :: "env \<Rightarrow> webhook_log \<Rightarrow> world \<Rightarrow> (error + unit) \<times> world" where
  "insert_webhook_log e row w =
     (case insert_fault e of
        Some err \<Rightarrow> (Inl err, w)
      | None \<Rightarrow>
          if idempotency_key row \<in> set (map idempotency_key (webhook_logs w))
          then (Inl (DbError (Some ''23505'')), w)
          else (Inr (), w\<lparr>webhook_logs := webhook_logs w @ [row]\<rparr>))"

definition isNewWebhookEvent ::
  "env \<Rightarrow> string \<Rightarrow> string \<Rightarrow> string \<Rightarrow> json \<Rightarrow> world \<Rightarrow> (error + bool) \<times> world" where
  "isNewWebhookEvent e src eventType idempotencyKey pl w =
     (case insert_webhook_log e
             \<lparr>wh_source = src, event_type = eventType, payload = pl, wh_status = received,
              idempotency_key = idempotencyKey, wh_error = None\<rparr> w of
        (Inr _, w') \<Rightarrow> (Inr True, w')
      | (Inl err, w') \<Rightarrow>
          if err_code err = Some ''23505'' then (Inr False, w') else (Inl err, w'))"

definition markWebhookStatus :: "string \<Rightarrow> webhook_status \<Rightarrow> string option \<Rightarrow> world \<Rightarrow> world" where
  "markWebhookStatus idempotencyKey st err w =
     w\<lparr>webhook_logs :=
         map (\<lambda>r. if idempotency_key r = idempotencyKey then r\<lparr>wh_status := st, wh_error := err\<rparr> else r)
           (webhook_logs w)\<rparr>"

section \<open>The caller of the guard (api/webhooks/meta.ts)\<close>

text \<open>
  One element of \<^verbatim>\<open>entry.changes\<close>: \<open>leadgen_id\<close> is \<^verbatim>\<open>change.value?.leadgen_id\<close>.
\<close>

record change =
  ch_field :: string
  leadgen_id :: "string option"
  ch_value :: json

fun error_message :: "error \<Rightarrow> string" where
  "error_message (DbError _) = ''database error''"
| "error_message NoResultError = ''no result''"

text \<open>
  The body of the inner loop of the POST handler. \<open>Inl\<close>: an exception leaves the loops
  (only the guard's can: the processing of an admitted event has its own
  \<^verbatim>\<open>try/catch\<close>); \<open>Inr\<close>: the loop goes on (\<^verbatim>\<open>continue\<close> or the end of the body).
\<close>

definition handleChange :: "env \<Rightarrow> change \<Rightarrow> world \<Rightarrow> (error + unit) \<times> world" where
  "handleChange e ch w =
     (if ch_field ch \<noteq> ''leadgen'' then (Inr (), w)
      else if \<not> truthy_str (leadgen_id ch) then (Inr (), w)
      else case leadgen_id ch of
        None \<Rightarrow> (Inr (), w)
      | Some leadgenId \<Rightarrow>
          (let idempotencyKey = ''meta_'' @ leadgenId
           in case isNewWebhookEvent e ''meta_ads'' ''leadgen'' idempotencyKey (ch_value ch) w of
                (Inl err, w1) \<Rightarrow> (Inl err, w1)
              | (Inr False, w1) \<Rightarrow> (Inr (), w1)
              | (Inr True, w1) \<Rightarrow>
                  (case fetchLeadInput e leadgenId of
                     None \<Rightarrow> (Inr (), markWebhookStatus idempotencyKey failed (Some ''fetch failed'') w1)
                   | Some input \<Rightarrow>
                       (case ingestLead e input w1 of
                          (Inl err, w2) \<Rightarrow>
                            (Inr (), markWebhookStatus idempotencyKey failed (Some (error_message err)) w2)
                        | (Inr _, w2) \<Rightarrow>
                            (Inr (), markWebhookStatus idempotencyKey processed None w2)))))"

fun handleChanges :: "env \<Rightarrow> change list \<Rightarrow> world \<Rightarrow> (error + unit) \<times> world" where
  "handleChanges e [] w = (Inr (), w)"
| "handleChanges e (ch # chs) w =
     (case handleChange e ch w of
        (Inl err, w1) \<Rightarrow> (Inl err, w1)
      | (Inr _, w1) \<Rightarrow> handleChanges e chs w1)"

text \<open>
  The POST handler after the signature check and the acknowledgement: the two nested
  loops run over the changes of all entries in order; the outer \<^verbatim>\<open>catch\<close> logs the
  exception and ends the request.
\<close>

definition metaWebhookPost :: "env \<Rightarrow> change list list \<Rightarrow> world \<Rightarrow> world" where
  "metaWebhookPost e entries w = snd (handleChanges e (concat entries) w)"

section \<open>Breach detection (services/sla-monitor.ts)\<close>

text \<open>
  A row of the first query of \<^verbatim>\<open>checkSlaBreaches\<close>: the selected columns of \<^verbatim>\<open>sla_events\<close>
  joined with the lead's name and phone. The loop works on these values as they were
  read, not on the table.
\<close>

record breached_row =
  row_id :: nat
  row_lead_id :: nat
  row_sla_type :: sla_type
  row_deadline_at :: int
  row_notified :: bool
  lead_name :: string
  lead_phone :: string

text \<open>
  The inner join keeps a row whose lead exists (the foreign key of \<^verbatim>\<open>sla_events.lead_id\<close>
  makes that every row); the three conditions of the \<^verbatim>\<open>where\<close> clauses follow.
\<close>

definition open_past_deadline :: "env \<Rightarrow> world \<Rightarrow> nat \<Rightarrow> bool" where
  "open_past_deadline e w i =
     (sla_lead_id (sla_events w ! i) < length (leads w) \<and>
      completed_at (sla_events w ! i) = None \<and>
      breached (sla_events w ! i) = False \<and>
      deadline_at (sla_events w ! i) < now e)"

definition breached_row_of :: "world \<Rightarrow> nat \<Rightarrow> breached_row" where
  "breached_row_of w i =
     \<lparr>row_id = i,
      row_lead_id = sla_lead_id (sla_events w ! i),
      row_sla_type = sla_type (sla_events w ! i),
      row_deadline_at = deadline_at (sla_events w ! i),
      row_notified = notified (sla_events w ! i),
      lead_name = name (leads w ! sla_lead_id (sla_events w ! i)),
      lead_phone = phone (leads w ! sla_lead_id (sla_events w ! i))\<rparr>"

definition selectBreached :: "env \<Rightarrow> world \<Rightarrow> breached_row list" where
  "selectBreached e w =
     map (breached_row_of w) (filter (open_past_deadline e w) [0..<length (sla_events w)])"

text \<open>The body of the loop of \<^verbatim>\<open>checkSlaBreaches\<close> for one selected row.\<close>

definition breachOne :: "env \<Rightarrow> breached_row \<Rightarrow> world \<Rightarrow> world" where
  "breachOne e sla w =
     (let w1 = w\<lparr>sla_events := update_row (row_id sla) (\<lambda>s. s\<lparr>breached := True\<rparr>) (sla_events w)\<rparr>;
          w2 = w1\<lparr>activities := activities w1 @
                 [\<lparr>act_lead_id = row_lead_id sla, act_type = t_sla_breach,
                   description = ''SLA breached: '' @ SLA_LABELS (row_sla_type sla),
                   metadata = [(''sla_type'', JStr (sla_type_str (row_sla_type sla))),
                               (''deadline'', JNum (row_deadline_at sla))]\<rparr>]\<rparr>
      in if \<not> row_notified sla then
           (let sent =
                  (if \<not> truthy_str (WHATSAPP_SDR_GROUP e) then (True, w2)
                   else case WHATSAPP_SDR_GROUP e of
                          None \<Rightarrow> (True, w2)
                        | Some groupId \<Rightarrow>
                            send e (GroupMessage groupId
                                      (SlaBreachText (row_id sla) (lead_name sla) (lead_phone sla)
                                         (row_sla_type sla) (row_deadline_at sla))) w2)
            in if fst sent
               then (snd sent)\<lparr>sla_events :=
                        update_row (row_id sla) (\<lambda>s. s\<lparr>notified := True\<rparr>) (sla_events (snd sent))\<rparr>
               else snd sent)
         else w2)"

definition checkSlaBreaches :: "env \<Rightarrow> world \<Rightarrow> nat \<times> world" where
  "checkSlaBreaches e w =
     (let rows = selectBreached e w
      in if length rows = 0 then (0, w)
         else (length rows, fold (breachOne e) rows w))"

text \<open>Sequential runs of the poll operation, one environment (clock, transport) per run.\<close>

fun checkRuns :: "env list \<Rightarrow> world \<Rightarrow> world" where
  "checkRuns [] w = w"
| "checkRuns (e # es) w = checkRuns es (snd (checkSlaBreaches e w))"

text \<open>
  In how many of the runs row \<open>i\<close> is among the selected rows, that is, how many times the
  statement that sets \<^verbatim>\<open>breached = true\<close> is executed for it (the loop executes it once
  for every selected row).
\<close>

fun timesMarked :: "nat \<Rightarrow> env list \<Rightarrow> world \<Rightarrow> nat" where
  "timesMarked i [] w = 0"
| "timesMarked i (e # es) w =
     (if i \<in> set (map row_id (selectBreached e w)) then 1 else 0)
     + timesMarked i es (snd (checkSlaBreaches e w))"

text \<open>The breach notices sent (attempted) so far for row \<open>i\<close>.\<close>

fun is_breach_notice :: "nat \<Rightarrow> outbound \<Rightarrow> bool" where
  "is_breach_notice i (GroupMessage g (SlaBreachText j nm ph t d)) = (i = j)"
| "is_breach_notice i _ = False"

definition breachNotices :: "nat \<Rightarrow> world \<Rightarrow> nat" where
  "breachNotices i w = length (filter (is_breach_notice i) (outbox w))"

text \<open>
  Two overlapping poll cycles. Every statement is awaited, so two invocations interleave
  at statement boundaries; in this schedule both invocations run their \<^verbatim>\<open>SELECT\<close> on the
  same store before either runs its loop.
\<close>

definition overlappedRuns :: "env \<Rightarrow> env \<Rightarrow> world \<Rightarrow> world" where
  "overlappedRuns e1 e2 w =
     (let rows1 = selectBreached e1 w;
          rows2 = selectBreached e2 w
      in fold (breachOne e2) rows2 (fold (breachOne e1) rows1 w))"

section \<open>Escalation chain (services/escalation.ts)\<close>

text \<open>
  The columns the migrations create for the two tables of the escalation query
  (\<^verbatim>\<open>001_create_leads\<close>, \<^verbatim>\<open>003_create_sla_events\<close>; no later migration alters them).
\<close>

definition leads_columns :: "string list" where
  "leads_columns =
     [''id'', ''external_id'', ''source'', ''funnel'', ''stage'', ''name'', ''email'', ''phone'',
      ''phone_normalized'', ''client_type'', ''project_type'', ''project_stage'', ''location'',
      ''estimated_deadline'', ''estimated_ticket'', ''score'', ''utm_source'', ''utm_medium'',
      ''utm_campaign'', ''utm_content'', ''pipedrive_deal_id'', ''pipedrive_person_id'',
      ''created_at'', ''updated_at'', ''qualified_at'', ''closed_at'']"

definition sla_events_columns :: "string list" where
  "sla_events_columns =
     [''id'', ''lead_id'', ''sla_type'', ''started_at'', ''deadline_at'', ''completed_at'',
      ''breached'', ''notified'', ''created_at'']"

definition table_columns :: "string \<Rightarrow> string list" where
  "table_columns t =
     (if t = ''leads'' then leads_columns
      else if t = ''sla_events'' then sla_events_columns
      else [])"

text \<open>
  The store resolves every column reference of a statement before it runs it; a
  reference to a column the table does not have makes it reject the statement with
  SQLSTATE 42703 (\<^verbatim>\<open>undefined_column\<close>).
\<close>

definition resolve_columns :: "(string \<times> string) list \<Rightarrow> error option" where
  "resolve_columns refs =
     (case find (\<lambda>r. snd r \<notin> set (table_columns (fst r))) refs of
        None \<Rightarrow> None
      | Some r \<Rightarrow> Some (DbError (Some ''42703'')))"

text \<open>The select list of the first query of \<^verbatim>\<open>runEscalationCheck\<close>, as written.\<close>

definition escalation_select :: "(string \<times> string) list" where
  "escalation_select =
     [(''sla_events'', ''id''), (''sla_events'', ''lead_id''), (''sla_events'', ''sla_type''),
      (''sla_events'', ''deadline_at''), (''sla_events'', ''notified''),
      (''sla_events'', ''metadata''), (''leads'', ''name''), (''leads'', ''phone''),
      (''leads'', ''estimated_ticket'')]"

record escalation_row =
  esc_sla_id :: nat
  esc_lead_id :: nat
  esc_sla_type :: sla_type
  esc_deadline_at :: int
  esc_lead_name :: string
  esc_estimated_ticket :: "int option"

definition breached_open :: "world \<Rightarrow> nat \<Rightarrow> bool" where
  "breached_open w i =
     (sla_lead_id (sla_events w ! i) < length (leads w) \<and>
      breached (sla_events w ! i) = True \<and>
      completed_at (sla_events w ! i) = None)"

definition escalation_row_of :: "world \<Rightarrow> nat \<Rightarrow> escalation_row" where
  "escalation_row_of w i =
     \<lparr>esc_sla_id = i,
      esc_lead_id = sla_lead_id (sla_events w ! i),
      esc_sla_type = sla_type (sla_events w ! i),
      esc_deadline_at = deadline_at (sla_events w ! i),
      esc_lead_name = name (leads w ! sla_lead_id (sla_events w ! i)),
      esc_estimated_ticket = estimated_ticket (leads w ! sla_lead_id (sla_events w ! i))\<rparr>"

definition selectEscalation :: "world \<Rightarrow> escalation_row list" where
  "selectEscalation w =
     map (escalation_row_of w) (filter (breached_open w) [0..<length (sla_events w)])"

text \<open>
  \<^verbatim>\<open>metadata @> pattern\<close> for a pattern that is an object of scalars: every key of the
  pattern is a key of the metadata, with the same value.
\<close>

definition jsonb_contains :: "(string \<times> json) list \<Rightarrow> (string \<times> json) list \<Rightarrow> bool" where
  "jsonb_contains md pattern = list_all (\<lambda>kv. map_of md (fst kv) = Some (snd kv)) pattern"

definition escalationActivities :: "world \<Rightarrow> escalation_row \<Rightarrow> activity_type list" where
  "escalationActivities w sla =
     map act_type
       (filter (\<lambda>a. act_lead_id a = esc_lead_id sla \<and>
                    (act_type a = t_escalation_slack \<or> act_type a = t_escalation_critical) \<and>
                    jsonb_contains (metadata a) [(''sla_id'', JNum (int (esc_sla_id sla)))])
          (activities w))"

text \<open>
  \<^verbatim>\<open>escalateToSlack\<close>, \<^verbatim>\<open>escalateToCritical\<close> and \<^verbatim>\<open>logEscalation\<close>. The first component of
  the result of the first two says whether the call resolved.
\<close>

definition escalateToSlack :: "env \<Rightarrow> nat \<Rightarrow> EscalationContext \<Rightarrow> world \<Rightarrow> bool \<times> world" where
  "escalateToSlack e sla_id ctx w = send e (SlackAlert warning (EscalationSlackText sla_id ctx)) w"

definition escalateToCritical ::
  "env \<Rightarrow> nat \<Rightarrow> EscalationContext \<Rightarrow> int option \<Rightarrow> world \<Rightarrow> bool \<times> world" where
  "escalateToCritical e sla_id ctx estimatedTicket w =
     (let ticketInfo = (if truthy_str (numeric_text estimatedTicket) then estimatedTicket else None);
          alerted = send e (SlackAlert critical (EscalationCriticalText sla_id ctx ticketInfo)) w
      in if \<not> fst alerted then alerted
         else if \<not> truthy_str (WHATSAPP_OPS_GROUP e) then alerted
         else case WHATSAPP_OPS_GROUP e of
                None \<Rightarrow> alerted
              | Some opsGroup \<Rightarrow>
                  send e (GroupMessage opsGroup (EscalationCriticalText sla_id ctx ticketInfo))
                    (snd alerted))"

definition logEscalation :: "env \<Rightarrow> nat \<Rightarrow> nat \<Rightarrow> activity_type \<Rightarrow> string \<Rightarrow> world \<Rightarrow> world" where
  "logEscalation e lead_id sla_id ty ty_str w =
     w\<lparr>activities := activities w @
         [\<lparr>act_lead_id = lead_id, act_type = ty, description = ''Escalation: '' @ ty_str,
           metadata = [(''sla_id'', JNum (int sla_id)), (''escalated_at'', JNum (now e))]\<rparr>]\<rparr>"

text \<open>
  The body of the loop of \<^verbatim>\<open>runEscalationCheck\<close> for one selected row; the state is the
  counter \<^verbatim>\<open>escalated\<close> and the world. A rejected send leaves the \<^verbatim>\<open>try\<close> block: the
  level is not logged and the rest of the block is skipped.
\<close>

definition escalateOne :: "env \<Rightarrow> escalation_row \<Rightarrow> nat \<times> world \<Rightarrow> nat \<times> world" where
  "escalateOne e sla st =
     (let escalated = fst st;
          w = snd st;
          minutes = (now e - esc_deadline_at sla) div 60000;
          ctx = \<lparr>ctx_leadId = esc_lead_id sla, ctx_leadName = esc_lead_name sla,
                 ctx_slaType = esc_sla_type sla, ctx_minutesSinceBreach = minutes\<rparr>;
          acts = escalationActivities w sla;
          hasSlackEscalation = (t_escalation_slack \<in> set acts);
          hasCriticalEscalation = (t_escalation_critical \<in> set acts);
          slack =
            (if minutes \<ge> 15 \<and> \<not> hasSlackEscalation then
               (let sent = escalateToSlack e (esc_sla_id sla) ctx w
                in if fst sent
                   then (True, escalated + 1,
                         logEscalation e (esc_lead_id sla) (esc_sla_id sla) t_escalation_slack
                           ''escalation_slack'' (snd sent))
                   else (False, escalated, snd sent))
             else (True, escalated, w))
      in if \<not> fst slack then snd slack
         else if minutes \<ge> 30 \<and> \<not> hasCriticalEscalation then
           (let sent = escalateToCritical e (esc_sla_id sla) ctx (esc_estimated_ticket sla)
                         (snd (snd slack))
            in if fst sent
               then (fst (snd slack) + 1,
                     logEscalation e (esc_lead_id sla) (esc_sla_id sla) t_escalation_critical
                       ''escalation_critical'' (snd sent))
               else (fst (snd slack), snd sent))
         else snd slack)"

text \<open>
  The loop of \<^verbatim>\<open>runEscalationCheck\<close> over the rows of its first query, had that query
  been answered.
\<close>

definition escalationLoop :: "env \<Rightarrow> world \<Rightarrow> nat \<times> world" where
  "escalationLoop e w = fold (escalateOne e) (selectEscalation w) (0, w)"

text \<open>
  \<^verbatim>\<open>runEscalationCheck\<close>: the first query is sent to the store; when the store rejects
  it the awaited promise rejects and the function's own promise rejects with it (the
  query is outside the \<^verbatim>\<open>try\<close> block of the loop).
\<close>

definition runEscalationCheck :: "env \<Rightarrow> world \<Rightarrow> (error + nat) \<times> world" where
  "runEscalationCheck e w =
     (case resolve_columns escalation_select of
        Some err \<Rightarrow> (Inl err, w)
      | None \<Rightarrow> (Inr (fst (escalationLoop e w)), snd (escalationLoop e w)))"

text \<open>
  \<^verbatim>\<open>checkSlaBreaches\<close> followed by \<^verbatim>\<open>runEscalationCheck\<close>, repeatedly; the job runner logs
  a rejected run and goes on with the next one.
\<close>

fun slaCycles :: "env list \<Rightarrow> world \<Rightarrow> world" where
  "slaCycles [] w = w"
| "slaCycles (e # es) w = slaCycles es (snd (runEscalationCheck e (snd (checkSlaBreaches e w))))"

text \<open>The same cycles with the loop of the escalation check run directly.\<close>

fun loopCycles :: "env list \<Rightarrow> world \<Rightarrow> world" where
  "loopCycles [] w = w"
| "loopCycles (e # es) w = loopCycles es (snd (escalationLoop e (snd (checkSlaBreaches e w))))"

fun is_level1 :: "nat \<Rightarrow> outbound \<Rightarrow> bool" where
  "is_level1 i (SlackAlert warning (EscalationSlackText j ctx)) = (i = j)"
| "is_level1 i _ = False"

fun is_level2 :: "nat \<Rightarrow> outbound \<Rightarrow> bool" where
  "is_level2 i (SlackAlert critical (EscalationCriticalText j ctx t)) = (i = j)"
| "is_level2 i _ = False"

definition level1Alerts :: "nat \<Rightarrow> world \<Rightarrow> nat" where
  "level1Alerts i w = length (filter (is_level1 i) (outbox w))"

definition level2Alerts :: "nat \<Rightarrow> world \<Rightarrow> nat" where
  "level2Alerts i w = length (filter (is_level2 i) (outbox w))"

text \<open>
  The breach notice the loop sends for a selected row, and whether the notification step
  of the loop resolves for it (nothing is sent, and nothing can fail, when no group is
  configured).
\<close>

definition row_notice :: "breached_row \<Rightarrow> string \<Rightarrow> outbound" where
  "row_notice r g =
     GroupMessage g (SlaBreachText (row_id r) (lead_name r) (lead_phone r) (row_sla_type r)
                       (row_deadline_at r))"

definition notice_accepted :: "env \<Rightarrow> breached_row \<Rightarrow> bool" where
  "notice_accepted e r =
     (case WHATSAPP_SDR_GROUP e of
        None \<Rightarrow> True
      | Some g \<Rightarrow> g = [] \<or> delivers e (row_notice r g))"

section \<open>Follow-up sequences (services/follow-up-sequences.ts)\<close>

fun channel_str :: "channel \<Rightarrow> string" where
  "channel_str ch_whatsapp = ''whatsapp''"
| "channel_str ch_email = ''email''"

text \<open>
  A row of the first query of \<^verbatim>\<open>processDueFollowUps\<close>: the execution joined with its lead.
\<close>

record due_execution =
  execution_id :: nat
  due_sequence_id :: nat
  due_current_step :: int
  due_lead_id :: nat
  due_name :: string
  due_phone_normalized :: string
  due_location :: "string option"
  due_project_type :: "project_type option"
  due_funnel :: funnel

text \<open>A \<^verbatim>\<open>NULL\<close> \<^verbatim>\<open>next_run_at\<close> does not satisfy \<^verbatim>\<open>next_run_at <= now\<close>.\<close>

definition is_due :: "env \<Rightarrow> world \<Rightarrow> nat \<Rightarrow> bool" where
  "is_due e w i =
     (exec_lead_id (follow_up_executions w ! i) < length (leads w) \<and>
      exec_status (follow_up_executions w ! i) = active \<and>
      (case next_run_at (follow_up_executions w ! i) of
         None \<Rightarrow> False
       | Some t \<Rightarrow> t \<le> now e))"

definition due_execution_of :: "world \<Rightarrow> nat \<Rightarrow> due_execution" where
  "due_execution_of w i =
     \<lparr>execution_id = i,
      due_sequence_id = exec_sequence_id (follow_up_executions w ! i),
      due_current_step = current_step (follow_up_executions w ! i),
      due_lead_id = exec_lead_id (follow_up_executions w ! i),
      due_name = name (leads w ! exec_lead_id (follow_up_executions w ! i)),
      due_phone_normalized = phone_normalized (leads w ! exec_lead_id (follow_up_executions w ! i)),
      due_location = location (leads w ! exec_lead_id (follow_up_executions w ! i)),
      due_project_type = project_type (leads w ! exec_lead_id (follow_up_executions w ! i)),
      due_funnel = funnel (leads w ! exec_lead_id (follow_up_executions w ! i))\<rparr>"

definition selectDue :: "env \<Rightarrow> world \<Rightarrow> due_execution list" where
  "selectDue e w =
     map (due_execution_of w) (filter (is_due e w) [0..<length (follow_up_executions w)])"

text \<open>The step of a sequence with a given \<^verbatim>\<open>step_order\<close> (\<^verbatim>\<open>executeTakeFirst\<close>).\<close>

definition findStep :: "follow_up_step list \<Rightarrow> nat \<Rightarrow> int \<Rightarrow> follow_up_step option" where
  "findStep steps sequenceId stepOrder =
     find (\<lambda>s. step_sequence_id s = sequenceId \<and> step_order s = stepOrder) steps"

text \<open>
  The body of the loop of \<^verbatim>\<open>processDueFollowUps\<close> for one due execution; the state is the
  counter \<^verbatim>\<open>processed\<close> and the world. An exception (the template engine throws, the send
  is rejected) is caught and logged: the execution is left as it is.
\<close>

definition processOne :: "env \<Rightarrow> due_execution \<Rightarrow> nat \<times> world \<Rightarrow> nat \<times> world" where
  "processOne e x st =
     (let processed = fst st;
          w = snd st;
          nextStepOrder = due_current_step x + 1
      in case findStep (follow_up_steps w) (due_sequence_id x) nextStepOrder of
           None \<Rightarrow>
             (processed,
              w\<lparr>follow_up_executions :=
                  update_row (execution_id x)
                    (\<lambda>r. r\<lparr>exec_status := completed, exec_completed_at := Some (now e)\<rparr>)
                    (follow_up_executions w)\<rparr>)
         | Some step \<Rightarrow>
             (case handlebars e (template step) (due_name x) (due_location x)
                     (due_project_type x) (due_funnel x) of
                None \<Rightarrow> (processed, w)
              | Some msg \<Rightarrow>
                  (let sent =
                         (if step_channel step = ch_whatsapp
                          then send e (TextMessage (due_phone_normalized x)
                                         (FollowUpText (execution_id x) msg)) w
                          else (True, w))
                   in if \<not> fst sent then (processed, snd sent)
                      else
                        (let w1 = (snd sent)\<lparr>activities := activities (snd sent) @
                                    [\<lparr>act_lead_id = due_lead_id x, act_type = t_follow_up,
                                      description = ''Sequence step '' @ show_int nextStepOrder @
                                                    '': '' @ take 200 msg,
                                      metadata =
                                        [(''sequence_id'', JNum (int (due_sequence_id x))),
                                         (''step_order'', JNum nextStepOrder),
                                         (''channel'', JStr (channel_str (step_channel step))),
                                         (''auto'', JBool True)]\<rparr>]\<rparr>
                         in case findStep (follow_up_steps w1) (due_sequence_id x)
                                   (nextStepOrder + 1) of
                              Some nextStep \<Rightarrow>
                                (processed + 1,
                                 w1\<lparr>follow_up_executions :=
                                     update_row (execution_id x)
                                       (\<lambda>r. r\<lparr>current_step := nextStepOrder,
                                              next_run_at :=
                                                Some (now e + delay_minutes nextStep * 60000)\<rparr>)
                                       (follow_up_executions w1)\<rparr>)
                            | None \<Rightarrow>
                                (processed + 1,
                                 w1\<lparr>follow_up_executions :=
                                     update_row (execution_id x)
                                       (\<lambda>r. r\<lparr>current_step := nextStepOrder,
                                              exec_status := completed,
                                              exec_completed_at := Some (now e),
                                              next_run_at := None\<rparr>)
                                       (follow_up_executions w1)\<rparr>)))))"

definition processDueFollowUps :: "env \<Rightarrow> world \<Rightarrow> nat \<times> world" where
  "processDueFollowUps e w =
     (let dueExecutions = selectDue e w
      in if length dueExecutions = 0 then (0, w)
         else fold (processOne e) dueExecutions (0, w))"

text \<open>Sequential runs of the poll operation.\<close>

fun dueRuns :: "env list \<Rightarrow> world \<Rightarrow> world" where
  "dueRuns [] w = w"
| "dueRuns (e # es) w = dueRuns es (snd (processDueFollowUps e w))"

text \<open>The follow-up messages dispatched so far for execution \<open>i\<close>.\<close>

fun is_follow_up :: "nat \<Rightarrow> outbound \<Rightarrow> bool" where
  "is_follow_up i (TextMessage ph (FollowUpText j msg)) = (i = j)"
| "is_follow_up i _ = False"

definition dispatched :: "nat \<Rightarrow> world \<Rightarrow> nat" where
  "dispatched i w = length (filter (is_follow_up i) (outbox w))"

text \<open>
  A sequence has the steps 1 to \<open>n\<close>; the delay of its step \<open>k\<close>; how many of its steps
  \<open>k+1\<close> to \<open>n\<close> go out on the WhatsApp channel.
\<close>

definition has_steps :: "follow_up_step list \<Rightarrow> nat \<Rightarrow> nat \<Rightarrow> bool" where
  "has_steps steps s n =
     (list_all (\<lambda>k. findStep steps s (int k) \<noteq> None) [1..<Suc n] \<and>
      findStep steps s (int n + 1) = None)"

definition delay_of :: "follow_up_step list \<Rightarrow> nat \<Rightarrow> nat \<Rightarrow> int" where
  "delay_of steps s k =
     (case findStep steps s (int k) of None \<Rightarrow> 0 | Some st \<Rightarrow> delay_minutes st)"

definition whatsapp_step :: "follow_up_step list \<Rightarrow> nat \<Rightarrow> nat \<Rightarrow> bool" where
  "whatsapp_step steps s k =
     (case findStep steps s (int k) of None \<Rightarrow> False | Some st \<Rightarrow> step_channel st = ch_whatsapp)"

definition whatsapp_steps :: "follow_up_step list \<Rightarrow> nat \<Rightarrow> nat \<Rightarrow> nat \<Rightarrow> nat" where
  "whatsapp_steps steps s k n = length (filter (whatsapp_step steps s) [Suc k..<Suc n])"

text \<open>
  The clock of every run has passed the time the execution is scheduled for: \<open>t\<close> is the
  current \<^verbatim>\<open>next_run_at\<close>, \<open>k\<close> the current step; the run that sends step \<open>k+1\<close> at its
  time \<open>now\<close> reschedules the execution to \<open>now\<close> plus the delay of step \<open>k+2\<close>.
\<close>

fun clock_advanced :: "follow_up_step list \<Rightarrow> nat \<Rightarrow> int \<Rightarrow> nat \<Rightarrow> env list \<Rightarrow> bool" where
  "clock_advanced steps s t k [] = True"
| "clock_advanced steps s t k (e # es) =
     (t \<le> now e \<and> clock_advanced steps s (now e + delay_of steps s (k + 2) * 60000) (Suc k) es)"

text \<open>The template engine renders and the transport accepts in every run.\<close>

definition healthy :: "env \<Rightarrow> bool" where
  "healthy e =
     ((\<forall>t n l p f. handlebars e t n l p f \<noteq> None) \<and> (\<forall>m. delivers e m))"

text \<open>
  The breach entries of the audit trail for a commitment. The entry that
  \<^verbatim>\<open>checkSlaBreaches\<close> writes carries the lead, the commitment's type and its deadline, not
  the row's id; so the entries counted for a row are the \<^verbatim>\<open>sla_breach\<close> activities of its
  lead with its type and deadline. They are the entries of that row alone when no other
  row of the table has the same lead, type and deadline (\<open>only_commitment\<close>).
\<close>

definition is_breach_entry :: "sla_event \<Rightarrow> activity \<Rightarrow> bool" where
  "is_breach_entry s a =
     (act_lead_id a = sla_lead_id s \<and> act_type a = t_sla_breach \<and>
      jsonb_contains (metadata a)
        [(''sla_type'', JStr (sla_type_str (sla_type s))), (''deadline'', JNum (deadline_at s))])"

definition breachEntries :: "sla_event \<Rightarrow> world \<Rightarrow> nat" where
  "breachEntries s w = length (filter (is_breach_entry s) (activities w))"

definition same_commitment :: "sla_event \<Rightarrow> sla_event \<Rightarrow> bool" where
  "same_commitment s s' =
     (sla_lead_id s' = sla_lead_id s \<and> sla_type s' = sla_type s \<and> deadline_at s' = deadline_at s)"

definition only_commitment :: "world \<Rightarrow> nat \<Rightarrow> bool" where
  "only_commitment w i =
     list_all (\<lambda>j. j = i \<or> \<not> same_commitment (sla_events w ! i) (sla_events w ! j))
       [0..<length (sla_events w)]"

text \<open>
  How many times the two overlapping runs execute the statement that sets
  \<^verbatim>\<open>breached = true\<close> for row \<open>i\<close>: once for each of the two selections that holds the row.
\<close>

definition overlapMarked :: "nat \<Rightarrow> env \<Rightarrow> env \<Rightarrow> world \<Rightarrow> nat" where
  "overlapMarked i e1 e2 w =
     length (filter (\<lambda>r. row_id r = i) (selectBreached e1 w @ selectBreached e2 w))"

text \<open>A selected row has the lead, type and deadline of a given commitment.\<close>

definition row_same :: "sla_event \<Rightarrow> breached_row \<Rightarrow> bool" where
  "row_same s r =
     (row_lead_id r = sla_lead_id s \<and> row_sla_type r = sla_type s \<and> row_deadline_at r = deadline_at s)"

text \<open>
  The entries of the audit trail for one step of a sequence sent to a lead: the activities
  of type \<^verbatim>\<open>follow_up\<close> of the lead whose metadata carry the step's sequence, order and
  channel. \<open>steps_logged\<close>: each of the steps \<open>k+1\<close> to \<open>n\<close> of the sequence has at least one
  more such entry in the second store than in the first.
\<close>

definition is_step_entry :: "nat \<Rightarrow> follow_up_step \<Rightarrow> activity \<Rightarrow> bool" where
  "is_step_entry lead_id st a =
     (act_lead_id a = lead_id \<and> act_type a = t_follow_up \<and>
      jsonb_contains (metadata a)
        [(''sequence_id'', JNum (int (step_sequence_id st))),
         (''step_order'', JNum (step_order st)),
         (''channel'', JStr (channel_str (step_channel st)))])"

definition stepEntries :: "nat \<Rightarrow> follow_up_step \<Rightarrow> world \<Rightarrow> nat" where
  "stepEntries lead_id st w = length (filter (is_step_entry lead_id st) (activities w))"

definition steps_logged ::
  "follow_up_step list \<Rightarrow> nat \<Rightarrow> nat \<Rightarrow> nat \<Rightarrow> nat \<Rightarrow> world \<Rightarrow> world \<Rightarrow> bool" where
  "steps_logged steps s lead_id k n w w' =
     list_all (\<lambda>j. case findStep steps s (int j) of
                     None \<Rightarrow> False
                   | Some st \<Rightarrow> stepEntries lead_id st w + 1 \<le> stepEntries lead_id st w')
       [Suc k..<Suc n]"

text \<open>
  The entry written for a step carries the lead and the sequence, not the execution's id;
  it is an entry of execution \<open>i\<close> alone when no other execution is of the same lead and
  sequence (\<open>only_execution\<close>). \<open>steps_logged_once\<close>: each of the steps \<open>k+1\<close> to \<open>n\<close> has
  exactly one more entry in the second store than in the first. \<open>due_matches\<close>: a selected
  execution is of the given lead and is about to send the given step.
\<close>

definition only_execution :: "world \<Rightarrow> nat \<Rightarrow> bool" where
  "only_execution w i =
     list_all (\<lambda>j. j = i \<or>
                   exec_lead_id (follow_up_executions w ! j) \<noteq>
                     exec_lead_id (follow_up_executions w ! i) \<or>
                   exec_sequence_id (follow_up_executions w ! j) \<noteq>
                     exec_sequence_id (follow_up_executions w ! i))
       [0..<length (follow_up_executions w)]"

definition steps_logged_once ::
  "follow_up_step list \<Rightarrow> nat \<Rightarrow> nat \<Rightarrow> nat \<Rightarrow> nat \<Rightarrow> world \<Rightarrow> world \<Rightarrow> bool" where
  "steps_logged_once steps s lead_id k n w w' =
     list_all (\<lambda>j. case findStep steps s (int j) of
                     None \<Rightarrow> False
                   | Some st \<Rightarrow> stepEntries lead_id st w' = stepEntries lead_id st w + 1)
       [Suc k..<Suc n]"

definition due_matches :: "nat \<Rightarrow> follow_up_step \<Rightarrow> due_execution \<Rightarrow> bool" where
  "due_matches lead_id st x =
     (due_lead_id x = lead_id \<and> due_sequence_id x = step_sequence_id st \<and>
      due_current_step x + 1 = step_order st)"

text \<open>An escalation of the given level is already recorded for the given SLA row: the
  activity that the \<open>alreadyEscalated\<close> query of \<open>runEscalationCheck\<close> looks for.\<close>

definition has_escalation :: "world \<Rightarrow> nat \<Rightarrow> nat \<Rightarrow> activity_type \<Rightarrow> bool" where
  "has_escalation w lead_id sla_id ty =
     list_ex (\<lambda>a. act_lead_id a = lead_id \<and> act_type a = ty \<and>
                  jsonb_contains (metadata a) [(''sla_id'', JNum (int sla_id))])
       (activities w)"

section \<open>Example stores and inputs\<close>

text \<open>
  A healthy environment (every transport accepts, the CRM answers, both WhatsApp groups
  are configured) and the empty store; the concrete inputs below instantiate the
  theorems.
\<close>

definition env_ok :: env where
  "env_ok =
     \<lparr>now = 1000, WHATSAPP_SDR_GROUP = Some ''sdr'', WHATSAPP_OPS_GROUP = Some ''ops'',
      delivers = (\<lambda>_. True), findPersonByPhone = (\<lambda>_. Some None),
      createPerson = (\<lambda>_ _ _. Some 7), createDeal = (\<lambda>_ _ _ _. Some 9),
      handlebars = (\<lambda>t n _ _ _. Some (t @ n)), fetchLeadInput = (\<lambda>_. None),
      insert_fault = None\<rparr>"

definition world_empty :: world where
  "world_empty =
     \<lparr>leads = [], activities = [], sla_events = [], webhook_logs = [], follow_up_steps = [],
      follow_up_executions = [], outbox = []\<rparr>"

definition change_1 :: change where
  "change_1 = \<lparr>ch_field = ''leadgen'', leadgen_id = Some ''1'', ch_value = JNull\<rparr>"

text \<open>
  The scenario of the spec: source \<open>meta_ads\<close>, phone 11999998888, project stage
  \<open>acabamentos\<close>, ticket 150000, no other qualification field.
\<close>

definition input_C6 :: RawLeadInput where
  "input_C6 =
     \<lparr>name = ''Ana'', email = None, phone = ''11999998888'', source = src_meta_ads,
      client_type = None, project_type = None, project_stage = Some acabamentos,
      location = None, estimated_deadline = None, estimated_ticket = Some 150000,
      utm_source = None, utm_medium = None, utm_campaign = None, utm_content = None,
      external_id = None\<rparr>"

text \<open>
  What the Meta and Google handlers pass when the form has no phone field
  (\<^verbatim>\<open>phone: fields.phone_number ?? fields.telefone ?? ""\<close>).
\<close>

definition input_no_phone :: RawLeadInput where
  "input_no_phone =
     \<lparr>name = ''Sem nome'', email = None, phone = [], source = src_meta_ads,
      client_type = None, project_type = None, project_stage = None,
      location = None, estimated_deadline = None, estimated_ticket = None,
      utm_source = Some ''facebook'', utm_medium = Some ''paid'', utm_campaign = None,
      utm_content = None, external_id = Some ''1''\<rparr>"

text \<open>
  A store whose only lead was created from a form with an empty e-mail field and a
  ticket of 0 (the insert stores \<^verbatim>\<open>input.email ?? null\<close> and
  \<^verbatim>\<open>input.estimated_ticket ?? null\<close>, which keep the empty string and the 0), and a second
  contact of the same phone that carries an e-mail address, an empty location and a
  ticket of 70000.
\<close>

definition lead_blank_email :: Lead where
  "lead_blank_email =
     \<lparr>name = ''Ana'', email = Some [], phone = ''11999887766'', source = src_meta_ads,
      client_type = None, project_type = None, project_stage = None,
      location = None, estimated_deadline = None, estimated_ticket = Some 0,
      utm_source = None, utm_medium = None, utm_campaign = None, utm_content = None,
      external_id = None, funnel = end_client, stage = triagem,
      phone_normalized = ''5511999887766'', score = 10, pipedrive_deal_id = None,
      pipedrive_person_id = None, created_at = 0, updated_at = 0, qualified_at = None,
      closed_at = None\<rparr>"

definition world_blank_email :: world where
  "world_blank_email = world_empty\<lparr>leads := [lead_blank_email]\<rparr>"

definition input_second_contact :: RawLeadInput where
  "input_second_contact =
     \<lparr>name = ''Ana'', email = Some ''ana@parket.com'', phone = ''+55 (11) 99988-7766'',
      source = src_google_ads, client_type = None, project_type = None, project_stage = None,
      location = Some [], estimated_deadline = None, estimated_ticket = Some 70000,
      utm_source = None, utm_medium = None, utm_campaign = None, utm_content = None,
      external_id = None\<rparr>"

text \<open>
  A store with one lead and one commitment whose deadline (minute 5) has passed by the
  time of the run (minute 50), neither completed nor breached yet.
\<close>

definition lead_ana :: Lead where
  "lead_ana =
     \<lparr>name = ''Ana'', email = None, phone = ''11999887766'', source = src_meta_ads,
      client_type = None, project_type = None, project_stage = None,
      location = None, estimated_deadline = None, estimated_ticket = None,
      utm_source = None, utm_medium = None, utm_campaign = None, utm_content = None,
      external_id = None, funnel = end_client, stage = triagem,
      phone_normalized = ''5511999887766'', score = 10, pipedrive_deal_id = None,
      pipedrive_person_id = None, created_at = 0, updated_at = 0, qualified_at = None,
      closed_at = None\<rparr>"

definition world_overdue :: world where
  "world_overdue =
     world_empty
       \<lparr>leads := [lead_ana],
        sla_events :=
          [\<lparr>sla_lead_id = 0, sla_type = response_5min, started_at = 0, deadline_at = 300000,
            completed_at = None, breached = False, notified = False\<rparr>]\<rparr>"

definition env_late :: env where
  "env_late = env_ok\<lparr>now := 3000000\<rparr>"

text \<open>
  The same store after a run whose notification failed: the commitment is breached and
  not notified. An environment without the SDR group, and one whose transport rejects
  every call.
\<close>

definition world_breached :: world where
  "world_breached =
     world_empty
       \<lparr>leads := [lead_ana],
        sla_events :=
          [\<lparr>sla_lead_id = 0, sla_type = response_5min, started_at = 0, deadline_at = 300000,
            completed_at = None, breached = True, notified = False\<rparr>]\<rparr>"

definition env_no_group :: env where
  "env_no_group = env_late\<lparr>WHATSAPP_SDR_GROUP := None\<rparr>"

definition env_down :: env where
  "env_down = env_late\<lparr>delivers := (\<lambda>_. False)\<rparr>"

text \<open>
  Follow-up fixtures: an execution at step 0 due at minute 60; a sequence whose only step
  goes out by e-mail; a sequence of two WhatsApp steps (delays 60 and 1440 minutes); a
  run after the first delay and a run a day later.
\<close>

definition env_due :: env where
  "env_due = env_ok\<lparr>now := 4000000\<rparr>"

definition env_next_day :: env where
  "env_next_day = env_ok\<lparr>now := 91000000\<rparr>"

definition execution_0 :: follow_up_execution where
  "execution_0 =
     \<lparr>exec_lead_id = 0, exec_sequence_id = 0, current_step = 0, exec_status = active,
      next_run_at = Some 3600000, exec_completed_at = None\<rparr>"

definition world_email_step :: world where
  "world_email_step =
     world_empty
       \<lparr>leads := [lead_ana],
        follow_up_steps :=
          [\<lparr>step_sequence_id = 0, step_order = 1, delay_minutes = 60, step_channel = ch_email,
            template = ''Ola ''\<rparr>],
        follow_up_executions := [execution_0]\<rparr>"

definition world_two_steps :: world where
  "world_two_steps =
     world_empty
       \<lparr>leads := [lead_ana],
        follow_up_steps :=
          [\<lparr>step_sequence_id = 0, step_order = 1, delay_minutes = 60, step_channel = ch_whatsapp,
            template = ''Ola ''\<rparr>,
           \<lparr>step_sequence_id = 0, step_order = 2, delay_minutes = 1440,
            step_channel = ch_whatsapp, template = ''Tudo bem, ''\<rparr>],
        follow_up_executions := [execution_0]\<rparr>"

section \<open>Auxiliary lemmas\<close>

lemma find_row_Some: "find_row P xs = Some i \<Longrightarrow> i < length xs \<and> P (xs ! i)"
proof (induction xs arbitrary: i)
  case Nil
  then show ?case by simp
next
  case (Cons x xs)
  then show ?case by (auto split: if_splits)
qed

lemma find_row_None: "find_row P xs = None \<Longrightarrow> x \<in> set xs \<Longrightarrow> \<not> P x"
  by (induction xs) (auto split: if_splits)

lemma length_update_row [simp]: "length (update_row i f xs) = length xs"
  by (simp add: update_row_def)

lemma nth_update_row:
  "j < length xs \<Longrightarrow> update_row i f xs ! j = (if j = i then f (xs ! j) else xs ! j)"
  by (simp add: update_row_def)

lemma send_outbox [simp]: "outbox (snd (send e m w)) = outbox w @ [m]"
  by (simp add: send_def)

lemma send_frame [simp]:
  "leads (snd (send e m w)) = leads w"
  "activities (snd (send e m w)) = activities w"
  "sla_events (snd (send e m w)) = sla_events w"
  "webhook_logs (snd (send e m w)) = webhook_logs w"
  "follow_up_steps (snd (send e m w)) = follow_up_steps w"
  "follow_up_executions (snd (send e m w)) = follow_up_executions w"
  by (simp_all add: send_def)

lemma notifyNewLead_frame [simp]:
  "leads (snd (notifyNewLead e a b c d f w)) = leads w"
  "activities (snd (notifyNewLead e a b c d f w)) = activities w"
  "sla_events (snd (notifyNewLead e a b c d f w)) = sla_events w"
  "webhook_logs (snd (notifyNewLead e a b c d f w)) = webhook_logs w"
  by (simp_all add: notifyNewLead_def split: option.splits)

lemma startSla_frame [simp]:
  "leads (startSla e i t w) = leads w"
  "activities (startSla e i t w) = activities w"
  "webhook_logs (startSla e i t w) = webhook_logs w"
  "outbox (startSla e i t w) = outbox w"
  by (simp_all add: startSla_def)

lemma syncToPipedrive_frame [simp]:
  "activities (snd (syncToPipedrive e i l w)) = activities w"
  "sla_events (snd (syncToPipedrive e i l w)) = sla_events w"
  "webhook_logs (snd (syncToPipedrive e i l w)) = webhook_logs w"
  "outbox (snd (syncToPipedrive e i l w)) = outbox w"
  "length (leads (snd (syncToPipedrive e i l w))) = length (leads w)"
  by (simp_all add: syncToPipedrive_def split: option.splits)

subsection \<open>The guard and its caller\<close>

lemma mergeLead_webhook_logs [simp]:
  "webhook_logs (snd (mergeLead e i ex input w)) = webhook_logs w"
  by (simp add: mergeLead_def Let_def)

lemma ingestLead_webhook_logs [simp]:
  "webhook_logs (snd (ingestLead e input w)) = webhook_logs w"
  by (simp add: ingestLead_def Let_def split: option.splits)

lemma markWebhookStatus_keys [simp]:
  "map idempotency_key (webhook_logs (markWebhookStatus k st err w)) =
   map idempotency_key (webhook_logs w)"
  by (simp add: markWebhookStatus_def comp_def)

lemma isNew_fresh:
  "insert_fault e = None \<Longrightarrow> key \<notin> set (map idempotency_key (webhook_logs w)) \<Longrightarrow>
   isNewWebhookEvent e src ty key pl w =
     (Inr True, w\<lparr>webhook_logs := webhook_logs w @
        [\<lparr>wh_source = src, event_type = ty, payload = pl, wh_status = received,
          idempotency_key = key, wh_error = None\<rparr>]\<rparr>)"
  by (simp add: isNewWebhookEvent_def insert_webhook_log_def)

lemma isNew_dup:
  "insert_fault e = None \<Longrightarrow> key \<in> set (map idempotency_key (webhook_logs w)) \<Longrightarrow>
   isNewWebhookEvent e src ty key pl w = (Inr False, w)"
  by (simp add: isNewWebhookEvent_def insert_webhook_log_def)

lemma isNew_fault:
  "insert_fault e = Some err \<Longrightarrow>
   isNewWebhookEvent e src ty key pl w =
     (if err_code err = Some ''23505'' then (Inr False, w) else (Inl err, w))"
  by (simp add: isNewWebhookEvent_def insert_webhook_log_def)

lemma handleChange_records_key:
  assumes "insert_fault e = None" "ch_field ch = ''leadgen''" "leadgen_id ch = Some k" "k \<noteq> []"
  shows "''meta_'' @ k \<in> set (map idempotency_key (webhook_logs (snd (handleChange e ch w))))"
proof (cases "''meta_'' @ k \<in> set (map idempotency_key (webhook_logs w))")
  case True
  with assms show ?thesis
    by (simp add: handleChange_def truthy_str_def isNew_dup)
next
  case False
  define w1 where "w1 = w\<lparr>webhook_logs := webhook_logs w @
        [\<lparr>wh_source = ''meta_ads'', event_type = ''leadgen'', payload = ch_value ch,
          wh_status = received, idempotency_key = ''meta_'' @ k, wh_error = None\<rparr>]\<rparr>"
  have g: "isNewWebhookEvent e ''meta_ads'' ''leadgen'' (''meta_'' @ k) (ch_value ch) w = (Inr True, w1)"
    unfolding w1_def using assms(1) False by (rule isNew_fresh)
  have k1: "''meta_'' @ k \<in> set (map idempotency_key (webhook_logs w1))"
    by (simp add: w1_def)
  show ?thesis
  proof (cases "fetchLeadInput e k")
    case None
    with assms g k1 show ?thesis
      by (simp add: handleChange_def truthy_str_def del: append.simps)
  next
    case (Some input)
    obtain r w2 where ing: "ingestLead e input w1 = (r, w2)"
      by (cases "ingestLead e input w1")
    have "webhook_logs w2 = webhook_logs w1"
      using ingestLead_webhook_logs [of e input w1] ing by simp
    with assms g k1 Some ing show ?thesis
      by (cases r) (simp_all add: handleChange_def truthy_str_def del: append.simps)
  qed
qed

lemma handleChange_duplicate:
  assumes "''meta_'' @ k \<in> set (map idempotency_key (webhook_logs w))" "leadgen_id ch = Some k"
  shows "snd (handleChange e ch w) = w"
proof (cases "insert_fault e")
  case None
  with assms show ?thesis
    by (simp add: handleChange_def truthy_str_def isNew_dup)
next
  case (Some err)
  with assms show ?thesis
    by (simp add: handleChange_def truthy_str_def isNew_fault)
qed

subsection \<open>Ingestion and merge\<close>

lemma scoreLead_C6:
  assumes "source input = src_meta_ads" "project_stage input = Some acabamentos"
    "estimated_ticket input = Some 150000" "email input = None" "client_type input = None"
    "project_type input = None" "location input = None" "estimated_deadline input = None"
  shows "scoreLead input = 54"
  using assms
  by (simp add: scoreLead_def truthy_str_def truthy_num_def present_def Math_round_def)

lemma normalize_C6: "normalizePhone ''11999998888'' = ''5511999998888''"
  by (simp add: normalizePhone_def is_digit_def startsWith_def)

lemma ingestLead_new:
  assumes "find_row (\<lambda>l. phone_normalized l = normalizePhone (phone input)) (leads w) = None"
  shows "\<exists>r w'. ingestLead e input w = (Inr r, w') \<and> isNew r \<and>
           phone_normalized (lead r) = normalizePhone (phone input) \<and>
           length (leads w') = Suc (length (leads w)) \<and>
           phone_normalized (leads w' ! length (leads w)) = normalizePhone (phone input)"
  using assms
  by (simp add: ingestLead_def Let_def split_beta syncToPipedrive_def nth_append update_row_def
      split: option.splits)

lemma ingestLead_existing:
  assumes "find_row (\<lambda>l. phone_normalized l = normalizePhone (phone input)) (leads w) = Some i"
  shows "ingestLead e input w = mergeLead e i (leads w ! i) input w"
  using assms by (simp add: ingestLead_def)

lemma mergeLead_ok:
  assumes "i < length (leads w)"
  shows "\<exists>r w'. mergeLead e i ex input w = (Inr r, w') \<and> \<not> isNew r \<and>
           length (leads w') = length (leads w)"
  using assms by (simp add: mergeLead_def Let_def)

lemma fold_merge_email:
  "fold apply_update (merge_str old new upd_email) l =
   l\<lparr>email := (if \<not> truthy_str old \<and> truthy_str new then new else email l)\<rparr>"
  by (simp add: merge_str_def truthy_str_def split: option.splits)

lemma fold_merge_location:
  "fold apply_update (merge_str old new upd_location) l =
   l\<lparr>location := (if \<not> truthy_str old \<and> truthy_str new then new else location l)\<rparr>"
  by (simp add: merge_str_def truthy_str_def split: option.splits)

lemma fold_merge_client_type:
  "fold apply_update (merge_enum old new upd_client_type) l =
   l\<lparr>client_type := (if \<not> present old \<and> present new then new else client_type l)\<rparr>"
  by (simp add: merge_enum_def present_def split: option.splits)

lemma fold_merge_project_type:
  "fold apply_update (merge_enum old new upd_project_type) l =
   l\<lparr>project_type := (if \<not> present old \<and> present new then new else project_type l)\<rparr>"
  by (simp add: merge_enum_def present_def split: option.splits)

lemma fold_merge_project_stage:
  "fold apply_update (merge_enum old new upd_project_stage) l =
   l\<lparr>project_stage := (if \<not> present old \<and> present new then new else project_stage l)\<rparr>"
  by (simp add: merge_enum_def present_def split: option.splits)

lemma show_nat_nonempty: "show_nat n \<noteq> []"
  by (subst show_nat.simps) simp

lemma truthy_numeric_text: "truthy_str (numeric_text n) = present n"
  by (cases n) (simp_all add: numeric_text_def truthy_str_def present_def show_int_def
      show_nat_nonempty)

lemma fold_merge_estimated_ticket:
  "fold apply_update (merge_num old new upd_estimated_ticket) l =
   l\<lparr>estimated_ticket :=
       (if \<not> present old \<and> truthy_num new then new else estimated_ticket l)\<rparr>"
  by (simp add: merge_num_def truthy_numeric_text truthy_num_def split: option.splits)

lemmas fold_merge =
  fold_merge_email fold_merge_location fold_merge_client_type fold_merge_project_type
  fold_merge_project_stage fold_merge_estimated_ticket

lemma merge_empty:
  "(merge_str old new upd = []) = (\<not> (\<not> truthy_str old \<and> truthy_str new))"
  "(merge_enum old' new' upd' = []) = (\<not> (\<not> present old' \<and> present new'))"
  "(merge_num old'' new'' upd'' = []) = (\<not> (\<not> present old'' \<and> truthy_num new''))"
proof -
  show "(merge_str old new upd = []) = (\<not> (\<not> truthy_str old \<and> truthy_str new))"
    by (simp add: merge_str_def truthy_str_def split: option.splits)
  show "(merge_enum old' new' upd' = []) = (\<not> (\<not> present old' \<and> present new'))"
    by (simp add: merge_enum_def present_def split: option.splits)
  show "(merge_num old'' new'' upd'' = []) = (\<not> (\<not> present old'' \<and> truthy_num new''))"
    by (simp add: merge_num_def truthy_numeric_text truthy_num_def split: option.splits)
qed

text \<open>The row the merge leaves at position \<open>i\<close>.\<close>

lemma merged_row:
  assumes "i < length (leads w)"
  shows "leads (snd (mergeLead e i ex input w)) ! i =
    (if length (merge_updates e ex input) > 1
     then (leads w ! i)
       \<lparr>updated_at := now e,
        email := (if \<not> truthy_str (email ex) \<and> truthy_str (email input)
                  then email input else email (leads w ! i)),
        client_type := (if \<not> present (client_type ex) \<and> present (client_type input)
                  then client_type input else client_type (leads w ! i)),
        project_type := (if \<not> present (project_type ex) \<and> present (project_type input)
                  then project_type input else project_type (leads w ! i)),
        project_stage := (if \<not> present (project_stage ex) \<and> present (project_stage input)
                  then project_stage input else project_stage (leads w ! i)),
        location := (if \<not> truthy_str (location ex) \<and> truthy_str (location input)
                  then location input else location (leads w ! i)),
        estimated_ticket :=
          (if \<not> present (estimated_ticket ex) \<and> truthy_num (estimated_ticket input)
           then estimated_ticket input else estimated_ticket (leads w ! i))\<rparr>
     else leads w ! i)"
  using assms
  by (simp add: mergeLead_def Let_def nth_update_row)
     (simp add: merge_updates_def fold_merge)

lemma merge_nothing:
  assumes "\<not> length (merge_updates e ex input) > 1"
  shows "(if \<not> truthy_str (email ex) \<and> truthy_str (email input) then x1 else y1) = y1"
    "(if \<not> present (client_type ex) \<and> present (client_type input) then x2 else y2) = y2"
    "(if \<not> present (project_type ex) \<and> present (project_type input) then x3 else y3) = y3"
    "(if \<not> present (project_stage ex) \<and> present (project_stage input) then x4 else y4) = y4"
    "(if \<not> truthy_str (location ex) \<and> truthy_str (location input) then x5 else y5) = y5"
    "(if \<not> present (estimated_ticket ex) \<and> truthy_num (estimated_ticket input)
      then x6 else y6) = y6"
  using assms
  by (auto simp: merge_updates_def merge_empty)

lemma mergeLead_other_rows:
  assumes "j < length (leads w)" "j \<noteq> i"
  shows "leads (snd (mergeLead e i ex input w)) ! j = leads w ! j"
  using assms by (simp add: mergeLead_def Let_def nth_update_row)

lemma mergeLead_length [simp]:
  "length (leads (snd (mergeLead e i ex input w))) = length (leads w)"
  by (simp add: mergeLead_def Let_def)

subsection \<open>Breach detection\<close>

lemma filter_eq_upt: "filter (\<lambda>j. j = i) [0..<n] = (if i < n then [i] else [])"
  by (induction n) auto

lemma row_id_of [simp]: "row_id (breached_row_of w i) = i"
  by (simp add: breached_row_of_def)

lemma selected_ids:
  "map row_id (selectBreached e w) = filter (open_past_deadline e w) [0..<length (sla_events w)]"
  by (simp add: selectBreached_def comp_def)

lemma selected_iff:
  "i \<in> row_id ` set (selectBreached e w) \<longleftrightarrow>
   i < length (sla_events w) \<and> open_past_deadline e w i"
  unfolding set_map [symmetric] selected_ids by auto

lemma selected_distinct: "distinct (map row_id (selectBreached e w))"
  by (simp add: selected_ids)

lemma selected_row:
  "r \<in> set (selectBreached e w) \<Longrightarrow> r = breached_row_of w (row_id r)"
  by (auto simp: selectBreached_def)

text \<open>One row of the loop.\<close>

lemma breachOne_frame [simp]:
  "leads (breachOne e r w) = leads w"
  "length (sla_events (breachOne e r w)) = length (sla_events w)"
  "webhook_logs (breachOne e r w) = webhook_logs w"
  "follow_up_steps (breachOne e r w) = follow_up_steps w"
  "follow_up_executions (breachOne e r w) = follow_up_executions w"
  by (auto simp: breachOne_def Let_def send_def split: option.splits)

lemma breachOne_other:
  "j \<noteq> row_id r \<Longrightarrow> sla_events (breachOne e r w) ! j = sla_events w ! j"
  by (simp add: breachOne_def Let_def update_row_def split: option.splits)

lemma breachOne_row:
  "row_id r < length (sla_events w) \<Longrightarrow>
   sla_events (breachOne e r w) ! row_id r =
     (sla_events w ! row_id r)
       \<lparr>breached := True,
        notified := (if \<not> row_notified r \<and> notice_accepted e r then True
                     else notified (sla_events w ! row_id r))\<rparr>"
  by (simp add: breachOne_def Let_def update_row_def notice_accepted_def row_notice_def
      truthy_str_def send_def split: option.splits)

lemma breachOne_outbox:
  "outbox (breachOne e r w) =
   outbox w @
     (if \<not> row_notified r \<and> truthy_str (WHATSAPP_SDR_GROUP e)
      then (case WHATSAPP_SDR_GROUP e of None \<Rightarrow> [] | Some g \<Rightarrow> [row_notice r g])
      else [])"
  by (simp add: breachOne_def Let_def row_notice_def truthy_str_def send_def split: option.splits)

lemma breachOne_notices:
  "breachNotices i (breachOne e r w) =
   breachNotices i w +
     (if i = row_id r \<and> \<not> row_notified r \<and> truthy_str (WHATSAPP_SDR_GROUP e) then 1 else 0)"
proof (cases "row_notified r")
  case True
  then show ?thesis
    by (simp add: breachNotices_def breachOne_outbox)
next
  case False
  show ?thesis
  proof (cases "WHATSAPP_SDR_GROUP e")
    case None
    with False show ?thesis
      by (simp add: breachNotices_def breachOne_outbox truthy_str_def)
  next
    case (Some g)
    show ?thesis
    proof (cases "g = []")
      case True
      with False Some show ?thesis
        by (simp add: breachNotices_def breachOne_outbox truthy_str_def)
    next
      case g: False
      with False Some show ?thesis
        by (simp add: breachNotices_def breachOne_outbox truthy_str_def row_notice_def)
    qed
  qed
qed

text \<open>The loop over the selected rows.\<close>

lemma fold_breach_frame [simp]:
  "leads (fold (breachOne e) rs w) = leads w"
  "length (sla_events (fold (breachOne e) rs w)) = length (sla_events w)"
  by (induction rs arbitrary: w) simp_all

lemma fold_breach_other:
  "i \<notin> set (map row_id rs) \<Longrightarrow>
   sla_events (fold (breachOne e) rs w) ! i = sla_events w ! i \<and>
   breachNotices i (fold (breachOne e) rs w) = breachNotices i w"
  by (induction rs arbitrary: w) (auto simp: breachOne_other breachOne_notices)

lemma fold_breach_row:
  assumes "rs = rs1 @ r # rs2" "row_id r \<notin> set (map row_id rs1)" "row_id r \<notin> set (map row_id rs2)"
    "row_id r < length (sla_events w)"
  shows "sla_events (fold (breachOne e) rs w) ! row_id r =
           (sla_events w ! row_id r)
             \<lparr>breached := True,
              notified := (if \<not> row_notified r \<and> notice_accepted e r then True
                           else notified (sla_events w ! row_id r))\<rparr>"
    and "breachNotices (row_id r) (fold (breachOne e) rs w) =
           breachNotices (row_id r) w +
             (if \<not> row_notified r \<and> truthy_str (WHATSAPP_SDR_GROUP e) then 1 else 0)"
proof -
  let ?w1 = "fold (breachOne e) rs1 w"
  have a: "sla_events ?w1 ! row_id r = sla_events w ! row_id r"
    "breachNotices (row_id r) ?w1 = breachNotices (row_id r) w"
    using fold_breach_other [OF assms(2), of e w] by simp_all
  have l: "row_id r < length (sla_events ?w1)"
    using assms(4) by simp
  have f: "fold (breachOne e) rs w = fold (breachOne e) rs2 (breachOne e r ?w1)"
    by (simp add: assms(1))
  show "sla_events (fold (breachOne e) rs w) ! row_id r =
           (sla_events w ! row_id r)
             \<lparr>breached := True,
              notified := (if \<not> row_notified r \<and> notice_accepted e r then True
                           else notified (sla_events w ! row_id r))\<rparr>"
    using fold_breach_other [OF assms(3), of e "breachOne e r ?w1"] breachOne_row [OF l, of e] a
    by (simp add: f)
  show "breachNotices (row_id r) (fold (breachOne e) rs w) =
           breachNotices (row_id r) w +
             (if \<not> row_notified r \<and> truthy_str (WHATSAPP_SDR_GROUP e) then 1 else 0)"
    using fold_breach_other [OF assms(3), of e "breachOne e r ?w1"] a
    by (simp add: f breachOne_notices)
qed

lemma split_selected:
  assumes "i < length (sla_events w)" "open_past_deadline e w i"
  shows "\<exists>rs1 rs2. selectBreached e w = rs1 @ breached_row_of w i # rs2 \<and>
           i \<notin> set (map row_id rs1) \<and> i \<notin> set (map row_id rs2)"
proof -
  have "i \<in> row_id ` set (selectBreached e w)"
    using assms by (simp add: selected_iff)
  then obtain r where r: "r \<in> set (selectBreached e w)" "row_id r = i"
    by auto
  then have rr: "r = breached_row_of w i"
    using selected_row by blast
  from r(1) obtain rs1 rs2 where s: "selectBreached e w = rs1 @ r # rs2"
    by (auto dest: split_list)
  have "distinct (map row_id (rs1 @ r # rs2))"
    using selected_distinct [of e w] s by simp
  then have "row_id r \<notin> set (map row_id rs1)" "row_id r \<notin> set (map row_id rs2)"
    by auto
  with s rr r(2) show ?thesis by auto
qed

text \<open>One run of the poll operation.\<close>

lemma check_world:
  "snd (checkSlaBreaches e w) = fold (breachOne e) (selectBreached e w) w"
  by (simp add: checkSlaBreaches_def Let_def)

lemma check_frame [simp]:
  "leads (snd (checkSlaBreaches e w)) = leads w"
  "length (sla_events (snd (checkSlaBreaches e w))) = length (sla_events w)"
  by (simp_all add: check_world)

lemma check_not_selected:
  assumes "\<not> (i < length (sla_events w) \<and> open_past_deadline e w i)"
  shows "sla_events (snd (checkSlaBreaches e w)) ! i = sla_events w ! i"
    and "breachNotices i (snd (checkSlaBreaches e w)) = breachNotices i w"
  using assms fold_breach_other [of i "selectBreached e w" e w]
  by (simp_all add: check_world selected_iff)

lemma check_selected:
  assumes "i < length (sla_events w)" "open_past_deadline e w i"
  shows "sla_events (snd (checkSlaBreaches e w)) ! i =
           (sla_events w ! i)
             \<lparr>breached := True,
              notified := (if \<not> notified (sla_events w ! i) \<and> notice_accepted e (breached_row_of w i)
                           then True else notified (sla_events w ! i))\<rparr>"
    and "breachNotices i (snd (checkSlaBreaches e w)) =
           breachNotices i w +
             (if \<not> notified (sla_events w ! i) \<and> truthy_str (WHATSAPP_SDR_GROUP e) then 1 else 0)"
proof -
  obtain rs1 rs2 where s: "selectBreached e w = rs1 @ breached_row_of w i # rs2"
    "i \<notin> set (map row_id rs1)" "i \<notin> set (map row_id rs2)"
    using split_selected [OF assms] by blast
  have n: "row_notified (breached_row_of w i) = notified (sla_events w ! i)"
    by (simp add: breached_row_of_def)
  show "sla_events (snd (checkSlaBreaches e w)) ! i =
           (sla_events w ! i)
             \<lparr>breached := True,
              notified := (if \<not> notified (sla_events w ! i) \<and> notice_accepted e (breached_row_of w i)
                           then True else notified (sla_events w ! i))\<rparr>"
    using fold_breach_row(1) [of "selectBreached e w" rs1 "breached_row_of w i" rs2 w e] s assms(1)
    by (simp add: check_world n)
  show "breachNotices i (snd (checkSlaBreaches e w)) =
           breachNotices i w +
             (if \<not> notified (sla_events w ! i) \<and> truthy_str (WHATSAPP_SDR_GROUP e) then 1 else 0)"
    using fold_breach_row(2) [of "selectBreached e w" rs1 "breached_row_of w i" rs2 w e] s assms(1)
    by (simp add: check_world n)
qed

text \<open>Sequential runs.\<close>

lemma runs_length [simp]: "length (sla_events (checkRuns es w)) = length (sla_events w)"
  by (induction es arbitrary: w) simp_all

lemma runs_breached:
  assumes "breached (sla_events w ! i)"
  shows "sla_events (checkRuns es w) ! i = sla_events w ! i \<and> timesMarked i es w = 0 \<and>
         breachNotices i (checkRuns es w) = breachNotices i w"
  using assms
proof (induction es arbitrary: w)
  case Nil
  then show ?case by simp
next
  case (Cons e es)
  have n: "\<not> (i < length (sla_events w) \<and> open_past_deadline e w i)"
    using Cons.prems by (simp add: open_past_deadline_def)
  have s: "sla_events (snd (checkSlaBreaches e w)) ! i = sla_events w ! i"
    "breachNotices i (snd (checkSlaBreaches e w)) = breachNotices i w"
    using check_not_selected [OF n] by simp_all
  then have "breached (sla_events (snd (checkSlaBreaches e w)) ! i)"
    using Cons.prems by simp
  from Cons.IH [OF this] s n show ?case
    by (simp add: selected_iff)
qed

lemma runs_future:
  assumes "list_all (\<lambda>c. now c \<le> deadline_at (sla_events w ! i)) es"
  shows "timesMarked i es w = 0 \<and> sla_events (checkRuns es w) ! i = sla_events w ! i"
  using assms
proof (induction es arbitrary: w)
  case Nil
  then show ?case by simp
next
  case (Cons e es)
  have n: "\<not> (i < length (sla_events w) \<and> open_past_deadline e w i)"
    using Cons.prems by (simp add: open_past_deadline_def)
  have s: "sla_events (snd (checkSlaBreaches e w)) ! i = sla_events w ! i"
    using check_not_selected(1) [OF n] .
  then have "list_all (\<lambda>c. now c \<le> deadline_at (sla_events (snd (checkSlaBreaches e w)) ! i)) es"
    using Cons.prems by simp
  from Cons.IH [OF this] s n show ?case
    by (simp add: selected_iff)
qed

lemma runs_notices_le: "breachNotices i (checkRuns es w) \<le> breachNotices i w + 1"
proof (induction es arbitrary: w)
  case Nil
  then show ?case by simp
next
  case (Cons e es)
  show ?case
  proof (cases "i < length (sla_events w) \<and> open_past_deadline e w i")
    case True
    then have b: "breached (sla_events (snd (checkSlaBreaches e w)) ! i)"
      by (simp add: check_selected(1))
    have "breachNotices i (snd (checkSlaBreaches e w)) \<le> breachNotices i w + 1"
      using True by (simp add: check_selected(2))
    with runs_breached [OF b, of es] show ?thesis by simp
  next
    case False
    have "breachNotices i (snd (checkSlaBreaches e w)) = breachNotices i w"
      using check_not_selected(2) [OF False] .
    with Cons.IH [of "snd (checkSlaBreaches e w)"] show ?thesis by simp
  qed
qed

text \<open>The breach entries of the audit trail.\<close>

lemma sla_type_str_inj: "(sla_type_str a = sla_type_str b) = (a = b)"
  by (cases a; cases b) simp_all

lemma breachOne_activities:
  "activities (breachOne e r w) =
   activities w @
     [\<lparr>act_lead_id = row_lead_id r, act_type = t_sla_breach,
       description = ''SLA breached: '' @ SLA_LABELS (row_sla_type r),
       metadata = [(''sla_type'', JStr (sla_type_str (row_sla_type r))),
                   (''deadline'', JNum (row_deadline_at r))]\<rparr>]"
  by (simp add: breachOne_def Let_def send_def split: option.splits)

lemma breachOne_entries:
  "breachEntries s (breachOne e r w) = breachEntries s w + (if row_same s r then 1 else 0)"
  by (simp add: breachEntries_def breachOne_activities is_breach_entry_def jsonb_contains_def
      row_same_def sla_type_str_inj)

lemma fold_breach_entries:
  "breachEntries s (fold (breachOne e) rs w) = breachEntries s w + length (filter (row_same s) rs)"
  by (induction rs arbitrary: w) (simp_all add: breachOne_entries)

lemma check_entries:
  "breachEntries s (snd (checkSlaBreaches e w)) =
   breachEntries s w + length (filter (row_same s) (selectBreached e w))"
  by (simp add: check_world fold_breach_entries)

lemma distinct_count:
  "distinct xs \<Longrightarrow> length (filter (\<lambda>j. j = i) xs) = (if i \<in> set xs then 1 else 0)"
  by (induction xs) auto

lemma selected_count:
  "length (filter (\<lambda>r. row_id r = i) (selectBreached e w)) =
   (if i < length (sla_events w) \<and> open_past_deadline e w i then 1 else 0)"
proof -
  have "length (filter (\<lambda>r. row_id r = i) (selectBreached e w)) =
        length (filter (\<lambda>j. j = i) (map row_id (selectBreached e w)))"
    by (simp add: filter_map comp_def)
  also have "\<dots> = (if i \<in> set (map row_id (selectBreached e w)) then 1 else 0)"
    by (rule distinct_count) (rule selected_distinct)
  also have "\<dots> = (if i < length (sla_events w) \<and> open_past_deadline e w i then 1 else 0)"
    using selected_iff [of i e w] by simp
  finally show ?thesis .
qed

lemma selected_same_ge:
  assumes "i < length (sla_events w)" "open_past_deadline e w i"
  shows "1 \<le> length (filter (row_same (sla_events w ! i)) (selectBreached e w))"
proof -
  obtain rs1 rs2 where s: "selectBreached e w = rs1 @ breached_row_of w i # rs2"
    using split_selected [OF assms] by blast
  have "row_same (sla_events w ! i) (breached_row_of w i)"
    by (simp add: row_same_def breached_row_of_def)
  then show ?thesis
    unfolding s by simp
qed

text \<open>
  The rows of \<open>w'\<close> have the lead, type and deadline they have in \<open>w\<close> (a run changes
  neither): then the selected rows of \<open>w'\<close> that write an entry of row \<open>i\<close> are row \<open>i\<close>
  itself, if it is the only commitment of its kind.
\<close>

lemma selected_same_only:
  assumes "only_commitment w i" "i < length (sla_events w)"
    "length (sla_events w') = length (sla_events w)"
    "\<And>j. same_commitment (sla_events w ! j) (sla_events w' ! j)"
  shows "length (filter (row_same (sla_events w ! i)) (selectBreached e w')) =
         (if open_past_deadline e w' i then 1 else 0)"
proof -
  have "filter (row_same (sla_events w ! i)) (selectBreached e w') =
        filter (\<lambda>r. row_id r = i) (selectBreached e w')"
  proof (rule filter_cong [OF refl])
    fix r
    assume r: "r \<in> set (selectBreached e w')"
    then have rr: "r = breached_row_of w' (row_id r)"
      by (rule selected_row)
    have "row_id r \<in> row_id ` set (selectBreached e w')"
      using r by blast
    then have l: "row_id r < length (sla_events w)"
      using assms(3) by (simp add: selected_iff)
    have k: "same_commitment (sla_events w ! row_id r) (sla_events w' ! row_id r)"
      by (rule assms(4))
    have "row_same (sla_events w ! i) r =
          same_commitment (sla_events w ! i) (sla_events w ! row_id r)"
      using k by (subst rr) (auto simp: row_same_def breached_row_of_def same_commitment_def)
    also have "\<dots> = (row_id r = i)"
    proof (cases "row_id r = i")
      case True
      then show ?thesis by (simp add: same_commitment_def)
    next
      case False
      have "row_id r \<in> set [0..<length (sla_events w)]"
        using l by simp
      with assms(1) False show ?thesis
        unfolding only_commitment_def list_all_iff by blast
    qed
    finally show "row_same (sla_events w ! i) r = (row_id r = i)" .
  qed
  then show ?thesis
    using assms(2,3) by (simp add: selected_count)
qed

lemma breachOne_keys:
  "same_commitment (sla_events w ! j) (sla_events (breachOne e r w) ! j)"
proof (cases "j = row_id r")
  case False
  then show ?thesis
    by (simp add: breachOne_other same_commitment_def)
next
  case True
  show ?thesis
  proof (cases "row_id r < length (sla_events w)")
    case l: True
    then show ?thesis
      unfolding True by (simp add: breachOne_row same_commitment_def)
  next
    case False
    then show ?thesis
      by (simp add: breachOne_def Let_def update_row_def send_def same_commitment_def
          split: option.splits)
  qed
qed

lemma same_commitment_trans:
  "same_commitment a b \<Longrightarrow> same_commitment b c \<Longrightarrow> same_commitment a c"
  by (simp add: same_commitment_def)

lemma fold_breach_keys:
  "same_commitment (sla_events w ! j) (sla_events (fold (breachOne e) rs w) ! j)"
proof (induction rs arbitrary: w)
  case Nil
  then show ?case by (simp add: same_commitment_def)
next
  case (Cons r rs)
  from breachOne_keys [of w j e r] Cons.IH [of "breachOne e r w"]
  show ?case
    by (simp add: same_commitment_def)
qed

lemma check_keys:
  "same_commitment (sla_events w ! j) (sla_events (snd (checkSlaBreaches e w)) ! j)"
  by (simp add: check_world fold_breach_keys)

subsection \<open>Escalation\<close>

lemma escalation_select_unresolved:
  "resolve_columns escalation_select = Some (DbError (Some ''42703''))"
  by (simp add: resolve_columns_def escalation_select_def table_columns_def
      sla_events_columns_def leads_columns_def)

lemma runEscalationCheck_rejected:
  "runEscalationCheck e w = (Inl (DbError (Some ''42703'')), w)"
  by (simp add: runEscalationCheck_def escalation_select_unresolved)

lemma breachOne_outbox_cases:
  "outbox (breachOne e r w) = outbox w \<or>
   (\<exists>g. outbox (breachOne e r w) = outbox w @ [row_notice r g])"
proof (cases "\<not> row_notified r \<and> truthy_str (WHATSAPP_SDR_GROUP e)")
  case True
  then obtain g where "WHATSAPP_SDR_GROUP e = Some g"
    by (auto simp: truthy_str_def split: option.splits)
  with True show ?thesis
    by (auto simp: breachOne_outbox)
next
  case False
  then have "outbox (breachOne e r w) = outbox w"
    by (cases "row_notified r") (simp_all add: breachOne_outbox)
  then show ?thesis ..
qed

lemma breachOne_alerts [simp]:
  "level1Alerts i (breachOne e r w) = level1Alerts i w"
  "level2Alerts i (breachOne e r w) = level2Alerts i w"
  using breachOne_outbox_cases [of e r w]
  by (auto simp: level1Alerts_def level2Alerts_def row_notice_def)

lemma fold_breach_alerts [simp]:
  "level1Alerts i (fold (breachOne e) rs w) = level1Alerts i w"
  "level2Alerts i (fold (breachOne e) rs w) = level2Alerts i w"
  by (induction rs arbitrary: w) simp_all

lemma check_alerts [simp]:
  "level1Alerts i (snd (checkSlaBreaches e w)) = level1Alerts i w"
  "level2Alerts i (snd (checkSlaBreaches e w)) = level2Alerts i w"
  by (simp_all add: check_world)

lemma slaCycles_alerts:
  "level1Alerts i (slaCycles es w) = level1Alerts i w \<and>
   level2Alerts i (slaCycles es w) = level2Alerts i w"
  by (induction es arbitrary: w) (simp_all add: runEscalationCheck_rejected)

subsection \<open>Follow-up sequences\<close>

lemma due_id_of [simp]: "execution_id (due_execution_of w i) = i"
  by (simp add: due_execution_of_def)

lemma due_ids:
  "map execution_id (selectDue e w) = filter (is_due e w) [0..<length (follow_up_executions w)]"
  by (simp add: selectDue_def comp_def)

lemma due_iff:
  "i \<in> execution_id ` set (selectDue e w) \<longleftrightarrow>
   i < length (follow_up_executions w) \<and> is_due e w i"
  unfolding set_map [symmetric] due_ids by auto

lemma due_distinct: "distinct (map execution_id (selectDue e w))"
  by (simp add: due_ids)

lemma due_row: "x \<in> set (selectDue e w) \<Longrightarrow> x = due_execution_of w (execution_id x)"
  by (auto simp: selectDue_def)

lemma split_due:
  assumes "i < length (follow_up_executions w)" "is_due e w i"
  shows "\<exists>xs1 xs2. selectDue e w = xs1 @ due_execution_of w i # xs2 \<and>
           i \<notin> set (map execution_id xs1) \<and> i \<notin> set (map execution_id xs2)"
proof -
  have "i \<in> execution_id ` set (selectDue e w)"
    using assms by (simp add: due_iff)
  then obtain x where x: "x \<in> set (selectDue e w)" "execution_id x = i"
    by auto
  then have xx: "x = due_execution_of w i"
    using due_row by blast
  from x(1) obtain xs1 xs2 where s: "selectDue e w = xs1 @ x # xs2"
    by (auto dest: split_list)
  have "distinct (map execution_id (xs1 @ x # xs2))"
    using due_distinct [of e w] s by simp
  then have "execution_id x \<notin> set (map execution_id xs1)" "execution_id x \<notin> set (map execution_id xs2)"
    by auto
  with s xx x(2) show ?thesis by auto
qed

text \<open>One execution of the loop.\<close>

lemma processOne_frame [simp]:
  "leads (snd (processOne e x st)) = leads (snd st)"
  "follow_up_steps (snd (processOne e x st)) = follow_up_steps (snd st)"
  "length (follow_up_executions (snd (processOne e x st))) = length (follow_up_executions (snd st))"
  by (simp_all add: processOne_def Let_def send_def split: option.splits)

lemma processOne_other:
  "j \<noteq> execution_id x \<Longrightarrow>
   follow_up_executions (snd (processOne e x st)) ! j = follow_up_executions (snd st) ! j"
  by (simp add: processOne_def Let_def send_def update_row_def split: option.splits)

lemma processOne_outbox_cases:
  "outbox (snd (processOne e x st)) = outbox (snd st) \<or>
   (\<exists>ph msg. outbox (snd (processOne e x st)) =
      outbox (snd st) @ [TextMessage ph (FollowUpText (execution_id x) msg)])"
  by (simp add: processOne_def Let_def send_def split: option.splits)

lemma processOne_dispatched_other:
  "j \<noteq> execution_id x \<Longrightarrow> dispatched j (snd (processOne e x st)) = dispatched j (snd st)"
  using processOne_outbox_cases [of e x st]
  by (auto simp: dispatched_def)


lemma healthy_render: "healthy e \<Longrightarrow> \<exists>msg. handlebars e t n l p f = Some msg"
  by (auto simp: healthy_def)

lemma healthy_delivers: "healthy e \<Longrightarrow> delivers e m"
  by (simp add: healthy_def)

lemma processOne_step:
  assumes "execution_id x < length (follow_up_executions w)"
    "findStep (follow_up_steps w) (due_sequence_id x) (due_current_step x + 1) = Some st"
    "healthy e"
  shows "follow_up_executions (snd (processOne e x (p, w))) ! execution_id x =
           (case findStep (follow_up_steps w) (due_sequence_id x) (due_current_step x + 1 + 1) of
              Some nx \<Rightarrow>
                (follow_up_executions w ! execution_id x)
                  \<lparr>current_step := due_current_step x + 1,
                   next_run_at := Some (now e + delay_minutes nx * 60000)\<rparr>
            | None \<Rightarrow>
                (follow_up_executions w ! execution_id x)
                  \<lparr>current_step := due_current_step x + 1, exec_status := completed,
                   exec_completed_at := Some (now e), next_run_at := None\<rparr>)"
    and "dispatched (execution_id x) (snd (processOne e x (p, w))) =
           dispatched (execution_id x) w + (if step_channel st = ch_whatsapp then 1 else 0)"
proof -
  obtain msg where m: "handlebars e (template st) (due_name x) (due_location x)
                         (due_project_type x) (due_funnel x) = Some msg"
    using healthy_render [OF assms(3)] by blast
  show "follow_up_executions (snd (processOne e x (p, w))) ! execution_id x =
           (case findStep (follow_up_steps w) (due_sequence_id x) (due_current_step x + 1 + 1) of
              Some nx \<Rightarrow>
                (follow_up_executions w ! execution_id x)
                  \<lparr>current_step := due_current_step x + 1,
                   next_run_at := Some (now e + delay_minutes nx * 60000)\<rparr>
            | None \<Rightarrow>
                (follow_up_executions w ! execution_id x)
                  \<lparr>current_step := due_current_step x + 1, exec_status := completed,
                   exec_completed_at := Some (now e), next_run_at := None\<rparr>)"
    using assms(1,2) m healthy_delivers [OF assms(3)]
    by (cases "step_channel st")
       (simp_all add: processOne_def Let_def send_def update_row_def split: option.splits)
  show "dispatched (execution_id x) (snd (processOne e x (p, w))) =
           dispatched (execution_id x) w + (if step_channel st = ch_whatsapp then 1 else 0)"
    using assms(1,2) m healthy_delivers [OF assms(3)]
    by (cases "step_channel st")
       (simp_all add: processOne_def Let_def send_def dispatched_def split: option.splits)
qed

text \<open>The loop over the due executions.\<close>

lemma fold_process_frame [simp]:
  "leads (snd (fold (processOne e) xs st)) = leads (snd st)"
  "follow_up_steps (snd (fold (processOne e) xs st)) = follow_up_steps (snd st)"
  "length (follow_up_executions (snd (fold (processOne e) xs st))) =
   length (follow_up_executions (snd st))"
  by (induction xs arbitrary: st) simp_all

lemma fold_process_other:
  "i \<notin> set (map execution_id xs) \<Longrightarrow>
   follow_up_executions (snd (fold (processOne e) xs st)) ! i = follow_up_executions (snd st) ! i \<and>
   dispatched i (snd (fold (processOne e) xs st)) = dispatched i (snd st)"
  by (induction xs arbitrary: st) (auto simp: processOne_other processOne_dispatched_other)

lemma due_world:
  "snd (processDueFollowUps e w) = snd (fold (processOne e) (selectDue e w) (0, w))"
  by (simp add: processDueFollowUps_def Let_def)

lemma due_frame [simp]:
  "leads (snd (processDueFollowUps e w)) = leads w"
  "follow_up_steps (snd (processDueFollowUps e w)) = follow_up_steps w"
  "length (follow_up_executions (snd (processDueFollowUps e w))) = length (follow_up_executions w)"
  by (simp_all add: due_world)

lemma due_selected:
  assumes "i < length (follow_up_executions w)" "is_due e w i" "healthy e"
    "findStep (follow_up_steps w) (exec_sequence_id (follow_up_executions w ! i))
       (current_step (follow_up_executions w ! i) + 1) = Some st"
  shows "follow_up_executions (snd (processDueFollowUps e w)) ! i =
           (case findStep (follow_up_steps w) (exec_sequence_id (follow_up_executions w ! i))
                   (current_step (follow_up_executions w ! i) + 1 + 1) of
              Some nx \<Rightarrow>
                (follow_up_executions w ! i)
                  \<lparr>current_step := current_step (follow_up_executions w ! i) + 1,
                   next_run_at := Some (now e + delay_minutes nx * 60000)\<rparr>
            | None \<Rightarrow>
                (follow_up_executions w ! i)
                  \<lparr>current_step := current_step (follow_up_executions w ! i) + 1,
                   exec_status := completed, exec_completed_at := Some (now e),
                   next_run_at := None\<rparr>)"
    and "dispatched i (snd (processDueFollowUps e w)) =
           dispatched i w + (if step_channel st = ch_whatsapp then 1 else 0)"
proof -
  obtain xs1 xs2 where s: "selectDue e w = xs1 @ due_execution_of w i # xs2"
    "i \<notin> set (map execution_id xs1)" "i \<notin> set (map execution_id xs2)"
    using split_due [OF assms(1,2)] by blast
  let ?x = "due_execution_of w i"
  let ?st1 = "fold (processOne e) xs1 (0, w)"
  have a: "follow_up_executions (snd ?st1) ! i = follow_up_executions w ! i"
    "dispatched i (snd ?st1) = dispatched i w"
    using fold_process_other [OF s(2), of e "(0, w)"] by simp_all
  have x: "execution_id ?x = i"
    "due_sequence_id ?x = exec_sequence_id (follow_up_executions w ! i)"
    "due_current_step ?x = current_step (follow_up_executions w ! i)"
    by (simp_all add: due_execution_of_def)
  have l: "execution_id ?x < length (follow_up_executions (snd ?st1))"
    using assms(1) by simp
  have f: "findStep (follow_up_steps (snd ?st1)) (due_sequence_id ?x) (due_current_step ?x + 1) = Some st"
    using assms(4) by (simp add: x)
  have st1: "?st1 = (fst ?st1, snd ?st1)" by simp
  have w2: "snd (processDueFollowUps e w) =
            snd (fold (processOne e) xs2 (processOne e ?x (fst ?st1, snd ?st1)))"
    by (simp add: due_world s(1))
  note step = processOne_step [OF l f assms(3), of "fst ?st1"]
  note rest = fold_process_other [OF s(3), of e "processOne e ?x (fst ?st1, snd ?st1)"]
  show "follow_up_executions (snd (processDueFollowUps e w)) ! i =
           (case findStep (follow_up_steps w) (exec_sequence_id (follow_up_executions w ! i))
                   (current_step (follow_up_executions w ! i) + 1 + 1) of
              Some nx \<Rightarrow>
                (follow_up_executions w ! i)
                  \<lparr>current_step := current_step (follow_up_executions w ! i) + 1,
                   next_run_at := Some (now e + delay_minutes nx * 60000)\<rparr>
            | None \<Rightarrow>
                (follow_up_executions w ! i)
                  \<lparr>current_step := current_step (follow_up_executions w ! i) + 1,
                   exec_status := completed, exec_completed_at := Some (now e),
                   next_run_at := None\<rparr>)"
    using step(1) rest a(1) unfolding w2 x by (simp split: option.splits)
  show "dispatched i (snd (processDueFollowUps e w)) =
           dispatched i w + (if step_channel st = ch_whatsapp then 1 else 0)"
    using step(2) rest a(2) unfolding w2 x by simp
qed

lemma has_steps_Some:
  assumes "has_steps steps s n" "1 \<le> j" "j \<le> n"
  shows "\<exists>st. findStep steps s (int j) = Some st"
proof -
  have "j \<in> set [1..<Suc n]" using assms(2,3) by auto
  with assms(1) have "findStep steps s (int j) \<noteq> None"
    unfolding has_steps_def list_all_iff by blast
  then show ?thesis by auto
qed

lemma has_steps_None: "has_steps steps s n \<Longrightarrow> findStep steps s (int n + 1) = None"
  by (simp add: has_steps_def)

lemma whatsapp_steps_Suc:
  assumes "k < n"
  shows "whatsapp_steps steps s k n =
     (if whatsapp_step steps s (Suc k) then 1 else 0) + whatsapp_steps steps s (Suc k) n"
proof -
  have u: "[Suc k..<Suc n] = Suc k # [Suc (Suc k)..<Suc n]"
    using assms by (subst upt_rec) simp
  show ?thesis
    unfolding whatsapp_steps_def u by simp
qed

lemma whatsapp_steps_end [simp]: "whatsapp_steps steps s n n = 0"
  by (simp add: whatsapp_steps_def)

lemma runs_complete:
  assumes "i < length (follow_up_executions w)"
    "exec_lead_id (follow_up_executions w ! i) < length (leads w)"
    "exec_status (follow_up_executions w ! i) = active"
    "exec_sequence_id (follow_up_executions w ! i) = s"
    "current_step (follow_up_executions w ! i) = int k"
    "next_run_at (follow_up_executions w ! i) = Some t"
    "has_steps (follow_up_steps w) s n" "k < n" "length es = n - k"
    "clock_advanced (follow_up_steps w) s t k es" "list_all healthy es"
  shows "exec_status (follow_up_executions (dueRuns es w) ! i) = completed \<and>
         current_step (follow_up_executions (dueRuns es w) ! i) = int n \<and>
         next_run_at (follow_up_executions (dueRuns es w) ! i) = None \<and>
         exec_completed_at (follow_up_executions (dueRuns es w) ! i) = Some (now (last es)) \<and>
         dispatched i (dueRuns es w) = dispatched i w + whatsapp_steps (follow_up_steps w) s k n"
  using assms
proof (induction es arbitrary: w k t)
  case Nil
  then show ?case by simp
next
  case (Cons e es)
  let ?w1 = "snd (processDueFollowUps e w)"
  let ?x = "follow_up_executions w ! i"
  have h: "healthy e" using Cons.prems(11) by simp
  have d: "is_due e w i"
    using Cons.prems(2,3,6,10) by (simp add: is_due_def)
  obtain st where st: "findStep (follow_up_steps w) s (int (Suc k)) = Some st"
    using has_steps_Some [OF Cons.prems(7), of "Suc k"] Cons.prems(8) by auto
  then have st': "findStep (follow_up_steps w) (exec_sequence_id ?x) (current_step ?x + 1) = Some st"
    using Cons.prems(4,5) by (simp add: add.commute)
  note sel = due_selected [OF Cons.prems(1) d h st']
  have wa: "(if step_channel st = ch_whatsapp then 1 else 0) =
            (if whatsapp_step (follow_up_steps w) s (Suc k) then 1 else (0::nat))"
    using st by (simp add: whatsapp_step_def)
  have nx: "current_step ?x + 1 + 1 = int (k + 2)"
    using Cons.prems(5) by simp
  show ?case
  proof (cases "Suc k = n")
    case True
    then have none: "findStep (follow_up_steps w) s (int (k + 2)) = None"
      using has_steps_None [OF Cons.prems(7)] by (simp add: add.commute)
    have es: "es = []" using Cons.prems(9) True by auto
    have row: "follow_up_executions ?w1 ! i =
                 ?x\<lparr>current_step := current_step ?x + 1, exec_status := completed,
                    exec_completed_at := Some (now e), next_run_at := None\<rparr>"
      using sel(1) none Cons.prems(4) unfolding nx by simp
    have "whatsapp_steps (follow_up_steps w) s k n =
            (if whatsapp_step (follow_up_steps w) s (Suc k) then 1 else 0)"
      using whatsapp_steps_Suc [of k n "follow_up_steps w" s] Cons.prems(8) True by simp
    with row sel(2) wa True Cons.prems(5) show ?thesis
      by (simp add: es)
  next
    case False
    then have lt: "Suc k < n" using Cons.prems(8) by simp
    obtain st2 where st2: "findStep (follow_up_steps w) s (int (k + 2)) = Some st2"
      using has_steps_Some [OF Cons.prems(7), of "k + 2"] lt by auto
    have row: "follow_up_executions ?w1 ! i =
                 ?x\<lparr>current_step := current_step ?x + 1,
                    next_run_at := Some (now e + delay_minutes st2 * 60000)\<rparr>"
      using sel(1) st2 Cons.prems(4) unfolding nx by simp
    have dl: "delay_of (follow_up_steps w) s (k + 2) = delay_minutes st2"
      using st2 by (simp add: delay_of_def)
    have ih: "exec_status (follow_up_executions (dueRuns es ?w1) ! i) = completed \<and>
         current_step (follow_up_executions (dueRuns es ?w1) ! i) = int n \<and>
         next_run_at (follow_up_executions (dueRuns es ?w1) ! i) = None \<and>
         exec_completed_at (follow_up_executions (dueRuns es ?w1) ! i) = Some (now (last es)) \<and>
         dispatched i (dueRuns es ?w1) =
           dispatched i ?w1 + whatsapp_steps (follow_up_steps ?w1) s (Suc k) n"
    proof (rule Cons.IH [where t = "now e + delay_minutes st2 * 60000"])
      show "i < length (follow_up_executions ?w1)" using Cons.prems(1) by simp
      show "exec_lead_id (follow_up_executions ?w1 ! i) < length (leads ?w1)"
        using Cons.prems(2) by (simp add: row)
      show "exec_status (follow_up_executions ?w1 ! i) = active"
        using Cons.prems(3) by (simp add: row)
      show "exec_sequence_id (follow_up_executions ?w1 ! i) = s"
        using Cons.prems(4) by (simp add: row)
      show "current_step (follow_up_executions ?w1 ! i) = int (Suc k)"
        using Cons.prems(5) by (simp add: row)
      show "next_run_at (follow_up_executions ?w1 ! i) = Some (now e + delay_minutes st2 * 60000)"
        by (simp add: row)
      show "has_steps (follow_up_steps ?w1) s n" using Cons.prems(7) by simp
      show "Suc k < n" by (rule lt)
      show "length es = n - Suc k" using Cons.prems(9) by simp
      show "clock_advanced (follow_up_steps ?w1) s (now e + delay_minutes st2 * 60000) (Suc k) es"
        using Cons.prems(10) dl by simp
      show "list_all healthy es" using Cons.prems(11) by simp
    qed
    have "whatsapp_steps (follow_up_steps w) s k n =
            (if whatsapp_step (follow_up_steps w) s (Suc k) then 1 else 0)
            + whatsapp_steps (follow_up_steps w) s (Suc k) n"
      using whatsapp_steps_Suc [of k n "follow_up_steps w" s] Cons.prems(8) by simp
    moreover have "es \<noteq> []" using Cons.prems(9) lt by auto
    ultimately show ?thesis using ih sel(2) wa by simp
  qed
qed


lemma whatsapp_steps_all:
  assumes "list_all (whatsapp_step steps s) [1..<Suc n]"
  shows "whatsapp_steps steps s 0 n = n"
proof -
  have "filter (whatsapp_step steps s) [1..<Suc n] = [1..<Suc n]"
    using assms by (simp add: list_all_iff)
  then show ?thesis
    by (simp add: whatsapp_steps_def)
qed

text \<open>The audit trail of the steps.\<close>

lemma stepEntries_append:
  "activities w' = activities w @ xs \<Longrightarrow>
   stepEntries l st w' = stepEntries l st w + length (filter (is_step_entry l st) xs)"
  by (simp add: stepEntries_def)

lemma processOne_activities_cases:
  "activities (snd (processOne e x st)) = activities (snd st) \<or>
   (\<exists>a. activities (snd (processOne e x st)) = activities (snd st) @ [a])"
  by (simp add: processOne_def Let_def send_def split: option.splits)

lemma processOne_entries_mono:
  "stepEntries l s (snd st) \<le> stepEntries l s (snd (processOne e x st))"
  using processOne_activities_cases [of e x st]
  by (auto simp: stepEntries_def)

lemma fold_process_entries_mono:
  "stepEntries l s (snd st) \<le> stepEntries l s (snd (fold (processOne e) xs st))"
proof (induction xs arbitrary: st)
  case Nil
  then show ?case by simp
next
  case (Cons x xs)
  have "stepEntries l s (snd st) \<le> stepEntries l s (snd (processOne e x st))"
    by (rule processOne_entries_mono)
  also have "\<dots> \<le> stepEntries l s (snd (fold (processOne e) xs (processOne e x st)))"
    by (rule Cons.IH)
  finally show ?case by simp
qed

lemma due_entries_mono:
  "stepEntries l s w \<le> stepEntries l s (snd (processDueFollowUps e w))"
  using fold_process_entries_mono [of l s "(0, w)" e "selectDue e w"]
  by (simp add: due_world)

lemma runs_entries_mono:
  "stepEntries l s w \<le> stepEntries l s (dueRuns es w)"
proof (induction es arbitrary: w)
  case Nil
  then show ?case by simp
next
  case (Cons e es)
  have "stepEntries l s w \<le> stepEntries l s (snd (processDueFollowUps e w))"
    by (rule due_entries_mono)
  also have "\<dots> \<le> stepEntries l s (dueRuns es (snd (processDueFollowUps e w)))"
    by (rule Cons.IH)
  finally show ?case by simp
qed

lemma findStep_fields:
  "findStep steps s k = Some st \<Longrightarrow> step_sequence_id st = s \<and> step_order st = k"
  by (auto simp: findStep_def find_Some_iff)

lemma processOne_logs:
  assumes "findStep (follow_up_steps w) (due_sequence_id x) (due_current_step x + 1) = Some st"
    "healthy e"
  shows "stepEntries (due_lead_id x) st (snd (processOne e x (p, w))) =
           stepEntries (due_lead_id x) st w + 1"
proof -
  obtain msg where m: "handlebars e (template st) (due_name x) (due_location x)
                         (due_project_type x) (due_funnel x) = Some msg"
    using healthy_render [OF assms(2)] by blast
  note f = findStep_fields [OF assms(1)]
  have "\<exists>a. activities (snd (processOne e x (p, w))) = activities w @ [a] \<and>
          is_step_entry (due_lead_id x) st a"
    using assms(1) m healthy_delivers [OF assms(2)] f
    by (cases "step_channel st")
       (simp_all add: processOne_def Let_def send_def is_step_entry_def jsonb_contains_def
          split: option.splits)
  then obtain a where a: "activities (snd (processOne e x (p, w))) = activities w @ [a]"
    "is_step_entry (due_lead_id x) st a"
    by blast
  show ?thesis
    using stepEntries_append [OF a(1), of "due_lead_id x" st] a(2) by simp
qed

lemma due_logs:
  assumes "i < length (follow_up_executions w)" "is_due e w i" "healthy e"
    "findStep (follow_up_steps w) (exec_sequence_id (follow_up_executions w ! i))
       (current_step (follow_up_executions w ! i) + 1) = Some st"
  shows "stepEntries (exec_lead_id (follow_up_executions w ! i)) st w + 1 \<le>
         stepEntries (exec_lead_id (follow_up_executions w ! i)) st (snd (processDueFollowUps e w))"
proof -
  obtain xs1 xs2 where s: "selectDue e w = xs1 @ due_execution_of w i # xs2"
    using split_due [OF assms(1,2)] by blast
  let ?x = "due_execution_of w i"
  let ?l = "exec_lead_id (follow_up_executions w ! i)"
  let ?st1 = "fold (processOne e) xs1 (0, w)"
  have x: "due_lead_id ?x = ?l"
    "due_sequence_id ?x = exec_sequence_id (follow_up_executions w ! i)"
    "due_current_step ?x = current_step (follow_up_executions w ! i)"
    by (simp_all add: due_execution_of_def)
  have f: "findStep (follow_up_steps (snd ?st1)) (due_sequence_id ?x) (due_current_step ?x + 1) = Some st"
    using assms(4) by (simp add: x)
  have w2: "snd (processDueFollowUps e w) =
            snd (fold (processOne e) xs2 (processOne e ?x (fst ?st1, snd ?st1)))"
    by (simp add: due_world s)
  have "stepEntries ?l st w \<le> stepEntries ?l st (snd ?st1)"
    using fold_process_entries_mono [of ?l st "(0, w)" e xs1] by simp
  moreover have "stepEntries ?l st (snd (processOne e ?x (fst ?st1, snd ?st1))) =
                 stepEntries ?l st (snd ?st1) + 1"
    using processOne_logs [OF f assms(3), of "fst ?st1"] by (simp add: x)
  moreover have "stepEntries ?l st (snd (processOne e ?x (fst ?st1, snd ?st1))) \<le>
                 stepEntries ?l st (snd (processDueFollowUps e w))"
    unfolding w2 by (rule fold_process_entries_mono)
  ultimately show ?thesis by simp
qed


lemma steps_logged_Suc:
  assumes "k < n" "findStep steps s (int (Suc k)) = Some st"
    "stepEntries l st w + 1 \<le> stepEntries l st w'" "steps_logged steps s l (Suc k) n w w'"
  shows "steps_logged steps s l k n w w'"
proof -
  have u: "[Suc k..<Suc n] = Suc k # [Suc (Suc k)..<Suc n]"
    using assms(1) by (subst upt_rec) simp
  show ?thesis
    using assms(2,3,4) unfolding steps_logged_def u by simp
qed

lemma steps_logged_from:
  assumes "steps_logged steps s l k n w1 w'" "\<And>st. stepEntries l st w \<le> stepEntries l st w1"
  shows "steps_logged steps s l k n w w'"
proof -
  have "\<And>st. stepEntries l st w1 + 1 \<le> stepEntries l st w' \<Longrightarrow>
             stepEntries l st w + 1 \<le> stepEntries l st w'"
    using assms(2) by (meson add_le_mono1 le_trans)
  note imp = this
  show ?thesis
    unfolding steps_logged_def list_all_iff
  proof
    fix j
    assume "j \<in> set [Suc k..<Suc n]"
    with assms(1)
    have c: "case findStep steps s (int j) of None \<Rightarrow> False
             | Some st \<Rightarrow> stepEntries l st w1 + 1 \<le> stepEntries l st w'"
      unfolding steps_logged_def list_all_iff by blast
    show "case findStep steps s (int j) of None \<Rightarrow> False
          | Some st \<Rightarrow> stepEntries l st w + 1 \<le> stepEntries l st w'"
    proof (cases "findStep steps s (int j)")
      case None
      with c show ?thesis by simp
    next
      case (Some st)
      with c imp [of st] show ?thesis by simp
    qed
  qed
qed

lemma runs_logged:
  assumes "i < length (follow_up_executions w)"
    "exec_lead_id (follow_up_executions w ! i) < length (leads w)"
    "exec_status (follow_up_executions w ! i) = active"
    "exec_sequence_id (follow_up_executions w ! i) = s"
    "current_step (follow_up_executions w ! i) = int k"
    "next_run_at (follow_up_executions w ! i) = Some t"
    "has_steps (follow_up_steps w) s n" "k < n" "length es = n - k"
    "clock_advanced (follow_up_steps w) s t k es" "list_all healthy es"
  shows "steps_logged (follow_up_steps w) s (exec_lead_id (follow_up_executions w ! i)) k n
           w (dueRuns es w)"
  using assms
proof (induction es arbitrary: w k t)
  case Nil
  then show ?case by simp
next
  case (Cons e es)
  let ?w1 = "snd (processDueFollowUps e w)"
  let ?x = "follow_up_executions w ! i"
  let ?l = "exec_lead_id ?x"
  have h: "healthy e" using Cons.prems(11) by simp
  have d: "is_due e w i"
    using Cons.prems(2,3,6,10) by (simp add: is_due_def)
  obtain st where st: "findStep (follow_up_steps w) s (int (Suc k)) = Some st"
    using has_steps_Some [OF Cons.prems(7), of "Suc k"] Cons.prems(8) by auto
  then have st': "findStep (follow_up_steps w) (exec_sequence_id ?x) (current_step ?x + 1) = Some st"
    using Cons.prems(4,5) by (simp add: add.commute)
  note sel = due_selected [OF Cons.prems(1) d h st']
  have "stepEntries ?l st w + 1 \<le> stepEntries ?l st ?w1"
    by (rule due_logs [OF Cons.prems(1) d h st'])
  also have "\<dots> \<le> stepEntries ?l st (dueRuns es ?w1)"
    by (rule runs_entries_mono)
  finally have one: "stepEntries ?l st w + 1 \<le> stepEntries ?l st (dueRuns (e # es) w)"
    by simp
  have nx: "current_step ?x + 1 + 1 = int (k + 2)"
    using Cons.prems(5) by simp
  show ?case
  proof (cases "Suc k = n")
    case True
    have u: "[Suc k..<Suc n] = [n]"
      using True by (simp add: upt_rec)
    show ?thesis
      using one st True unfolding steps_logged_def u by simp
  next
    case False
    then have lt: "Suc k < n" using Cons.prems(8) by simp
    obtain st2 where st2: "findStep (follow_up_steps w) s (int (k + 2)) = Some st2"
      using has_steps_Some [OF Cons.prems(7), of "k + 2"] lt by auto
    have row: "follow_up_executions ?w1 ! i =
                 ?x\<lparr>current_step := current_step ?x + 1,
                    next_run_at := Some (now e + delay_minutes st2 * 60000)\<rparr>"
      using sel(1) st2 Cons.prems(4) unfolding nx by simp
    have dl: "delay_of (follow_up_steps w) s (k + 2) = delay_minutes st2"
      using st2 by (simp add: delay_of_def)
    have ih: "steps_logged (follow_up_steps ?w1) s (exec_lead_id (follow_up_executions ?w1 ! i))
                (Suc k) n ?w1 (dueRuns es ?w1)"
    proof (rule Cons.IH [where t = "now e + delay_minutes st2 * 60000"])
      show "i < length (follow_up_executions ?w1)" using Cons.prems(1) by simp
      show "exec_lead_id (follow_up_executions ?w1 ! i) < length (leads ?w1)"
        using Cons.prems(2) by (simp add: row)
      show "exec_status (follow_up_executions ?w1 ! i) = active"
        using Cons.prems(3) by (simp add: row)
      show "exec_sequence_id (follow_up_executions ?w1 ! i) = s"
        using Cons.prems(4) by (simp add: row)
      show "current_step (follow_up_executions ?w1 ! i) = int (Suc k)"
        using Cons.prems(5) by (simp add: row)
      show "next_run_at (follow_up_executions ?w1 ! i) = Some (now e + delay_minutes st2 * 60000)"
        by (simp add: row)
      show "has_steps (follow_up_steps ?w1) s n" using Cons.prems(7) by simp
      show "Suc k < n" by (rule lt)
      show "length es = n - Suc k" using Cons.prems(9) by simp
      show "clock_advanced (follow_up_steps ?w1) s (now e + delay_minutes st2 * 60000) (Suc k) es"
        using Cons.prems(10) dl by simp
      show "list_all healthy es" using Cons.prems(11) by simp
    qed
    have l1: "exec_lead_id (follow_up_executions ?w1 ! i) = ?l"
      by (simp add: row)
    have "steps_logged (follow_up_steps w) s ?l (Suc k) n ?w1 (dueRuns (e # es) w)"
      using ih unfolding l1 by simp
    then have "steps_logged (follow_up_steps w) s ?l (Suc k) n w (dueRuns (e # es) w)"
      by (rule steps_logged_from) (rule due_entries_mono)
    with steps_logged_Suc [OF Cons.prems(8) st one] show ?thesis
      by blast
  qed
qed

lemma processOne_entry_cases:
  "activities (snd (processOne e x st)) = activities (snd st) \<or>
   (\<exists>a. activities (snd (processOne e x st)) = activities (snd st) @ [a] \<and>
        act_lead_id a = due_lead_id x \<and>
        map_of (metadata a) ''sequence_id'' = Some (JNum (int (due_sequence_id x))) \<and>
        map_of (metadata a) ''step_order'' = Some (JNum (due_current_step x + 1)))"
  by (simp add: processOne_def Let_def send_def split: option.splits)

lemma processOne_entries_le:
  "stepEntries l s (snd (processOne e x st)) \<le>
   stepEntries l s (snd st) + (if due_matches l s x then 1 else 0)"
proof -
  from processOne_entry_cases [of e x st]
  consider "activities (snd (processOne e x st)) = activities (snd st)"
    | a where "activities (snd (processOne e x st)) = activities (snd st) @ [a]"
        "act_lead_id a = due_lead_id x"
        "map_of (metadata a) ''sequence_id'' = Some (JNum (int (due_sequence_id x)))"
        "map_of (metadata a) ''step_order'' = Some (JNum (due_current_step x + 1))"
    by blast
  then show ?thesis
  proof cases
    case 1
    then show ?thesis by (simp add: stepEntries_def)
  next
    case 2
    have "is_step_entry l s a \<Longrightarrow> due_matches l s x"
      using 2(2,3,4) by (simp add: is_step_entry_def jsonb_contains_def due_matches_def)
    then have "length (filter (is_step_entry l s) [a]) \<le> (if due_matches l s x then 1 else 0)"
      by (cases "is_step_entry l s a") simp_all
    then show ?thesis
      using stepEntries_append [OF 2(1), of l s] by simp
  qed
qed

lemma fold_process_entries_le:
  "stepEntries l s (snd (fold (processOne e) xs st)) \<le>
   stepEntries l s (snd st) + length (filter (due_matches l s) xs)"
proof (induction xs arbitrary: st)
  case Nil
  then show ?case by simp
next
  case (Cons x xs)
  have "stepEntries l s (snd (fold (processOne e) xs (processOne e x st))) \<le>
        stepEntries l s (snd (processOne e x st)) + length (filter (due_matches l s) xs)"
    by (rule Cons.IH)
  also have "\<dots> \<le> stepEntries l s (snd st) + (if due_matches l s x then 1 else 0)
                 + length (filter (due_matches l s) xs)"
    using processOne_entries_le [of l s e x st] by simp
  finally show ?case by (cases "due_matches l s x") simp_all
qed

lemma due_count:
  "length (filter (\<lambda>x. execution_id x = i) (selectDue e w)) \<le> 1"
proof -
  have "length (filter (\<lambda>x. execution_id x = i) (selectDue e w)) =
        length (filter (\<lambda>j. j = i) (map execution_id (selectDue e w)))"
    by (simp add: filter_map comp_def)
  also have "\<dots> = (if i \<in> set (map execution_id (selectDue e w)) then 1 else 0)"
    by (rule distinct_count) (rule due_distinct)
  finally show ?thesis by simp
qed

lemma due_entries_le:
  assumes "only_execution w i" "i < length (follow_up_executions w)"
    "step_sequence_id st = exec_sequence_id (follow_up_executions w ! i)"
  shows "stepEntries (exec_lead_id (follow_up_executions w ! i)) st (snd (processDueFollowUps e w)) \<le>
         stepEntries (exec_lead_id (follow_up_executions w ! i)) st w +
           (if current_step (follow_up_executions w ! i) + 1 = step_order st then 1 else 0)"
proof -
  let ?l = "exec_lead_id (follow_up_executions w ! i)"
  let ?c = "current_step (follow_up_executions w ! i) + 1 = step_order st"
  have m: "due_matches ?l st x \<Longrightarrow> execution_id x = i \<and> ?c" if x: "x \<in> set (selectDue e w)" for x
  proof -
    assume d: "due_matches ?l st x"
    have xx: "x = due_execution_of w (execution_id x)"
      using x by (rule due_row)
    have "execution_id x \<in> execution_id ` set (selectDue e w)"
      using x by blast
    then have l: "execution_id x \<in> set [0..<length (follow_up_executions w)]"
      by (simp add: due_iff)
    have k: "exec_lead_id (follow_up_executions w ! execution_id x) = ?l"
      "exec_sequence_id (follow_up_executions w ! execution_id x) =
         exec_sequence_id (follow_up_executions w ! i)"
      "current_step (follow_up_executions w ! execution_id x) + 1 = step_order st"
      using d assms(3) by (subst (asm) xx, simp add: due_matches_def due_execution_of_def)+
    have "execution_id x = i"
      using assms(1) l k(1,2) unfolding only_execution_def list_all_iff by blast
    with k(3) show ?thesis by simp
  qed
  have "length (filter (due_matches ?l st) (selectDue e w)) \<le> (if ?c then 1 else 0)"
  proof (cases ?c)
    case True
    have "filter (due_matches ?l st) (selectDue e w) =
          filter (\<lambda>x. due_matches ?l st x \<and> execution_id x = i) (selectDue e w)"
      by (rule filter_cong [OF refl]) (use m in blast)
    also have "\<dots> = filter (due_matches ?l st) (filter (\<lambda>x. execution_id x = i) (selectDue e w))"
      by (simp add: conj_commute)
    finally have "length (filter (due_matches ?l st) (selectDue e w)) \<le>
                  length (filter (\<lambda>x. execution_id x = i) (selectDue e w))"
      by (simp only: length_filter_le)
    with due_count [of i e w] True show ?thesis by simp
  next
    case False
    have "filter (due_matches ?l st) (selectDue e w) = []"
      using m False by (auto simp: filter_empty_conv)
    with False show ?thesis by simp
  qed
  with fold_process_entries_le [of ?l st e "selectDue e w" "(0, w)"]
  show ?thesis
    by (simp add: due_world)
qed

lemma processOne_keys:
  "exec_lead_id (follow_up_executions (snd (processOne e x st)) ! j) =
     exec_lead_id (follow_up_executions (snd st) ! j) \<and>
   exec_sequence_id (follow_up_executions (snd (processOne e x st)) ! j) =
     exec_sequence_id (follow_up_executions (snd st) ! j)"
  by (cases "j = execution_id x")
     (simp_all add: processOne_def Let_def send_def update_row_def split: option.splits)

lemma fold_process_keys:
  "exec_lead_id (follow_up_executions (snd (fold (processOne e) xs st)) ! j) =
     exec_lead_id (follow_up_executions (snd st) ! j) \<and>
   exec_sequence_id (follow_up_executions (snd (fold (processOne e) xs st)) ! j) =
     exec_sequence_id (follow_up_executions (snd st) ! j)"
  by (induction xs arbitrary: st) (simp_all add: processOne_keys)

lemma due_keys:
  "exec_lead_id (follow_up_executions (snd (processDueFollowUps e w)) ! j) =
     exec_lead_id (follow_up_executions w ! j)"
  "exec_sequence_id (follow_up_executions (snd (processDueFollowUps e w)) ! j) =
     exec_sequence_id (follow_up_executions w ! j)"
  using fold_process_keys [of e "selectDue e w" "(0, w)" j]
  by (simp_all add: due_world)

lemma due_only:
  "only_execution (snd (processDueFollowUps e w)) i = only_execution w i"
  by (simp add: only_execution_def due_keys)


lemma run_advance:
  assumes "i < length (follow_up_executions w)"
    "exec_lead_id (follow_up_executions w ! i) < length (leads w)"
    "exec_status (follow_up_executions w ! i) = active"
    "exec_sequence_id (follow_up_executions w ! i) = s"
    "current_step (follow_up_executions w ! i) = int k"
    "next_run_at (follow_up_executions w ! i) = Some t"
    "has_steps (follow_up_steps w) s n" "Suc k < n"
    "clock_advanced (follow_up_steps w) s t k (e # es)" "healthy e"
  shows "\<exists>t'. exec_status (follow_up_executions (snd (processDueFollowUps e w)) ! i) = active \<and>
           current_step (follow_up_executions (snd (processDueFollowUps e w)) ! i) = int (Suc k) \<and>
           next_run_at (follow_up_executions (snd (processDueFollowUps e w)) ! i) = Some t' \<and>
           clock_advanced (follow_up_steps w) s t' (Suc k) es"
proof -
  let ?w1 = "snd (processDueFollowUps e w)"
  let ?x = "follow_up_executions w ! i"
  have d: "is_due e w i"
    using assms(2,3,6,9) by (simp add: is_due_def)
  obtain st where st: "findStep (follow_up_steps w) s (int (Suc k)) = Some st"
    using has_steps_Some [OF assms(7), of "Suc k"] assms(8) by auto
  then have st': "findStep (follow_up_steps w) (exec_sequence_id ?x) (current_step ?x + 1) = Some st"
    using assms(4,5) by (simp add: add.commute)
  note sel = due_selected [OF assms(1) d assms(10) st']
  have nx: "current_step ?x + 1 + 1 = int (k + 2)"
    using assms(5) by simp
  obtain st2 where st2: "findStep (follow_up_steps w) s (int (k + 2)) = Some st2"
    using has_steps_Some [OF assms(7), of "k + 2"] assms(8) by auto
  have row: "follow_up_executions ?w1 ! i =
               ?x\<lparr>current_step := current_step ?x + 1,
                  next_run_at := Some (now e + delay_minutes st2 * 60000)\<rparr>"
    using sel(1) st2 assms(4) unfolding nx by simp
  have dl: "delay_of (follow_up_steps w) s (k + 2) = delay_minutes st2"
    using st2 by (simp add: delay_of_def)
  have "clock_advanced (follow_up_steps w) s (now e + delay_minutes st2 * 60000) (Suc k) es"
    using assms(9) dl by simp
  then show ?thesis
    using assms(3,5) by (simp add: row)
qed

lemma runs_entries_le:
  assumes "i < length (follow_up_executions w)"
    "exec_lead_id (follow_up_executions w ! i) < length (leads w)"
    "exec_status (follow_up_executions w ! i) = active"
    "exec_sequence_id (follow_up_executions w ! i) = s"
    "current_step (follow_up_executions w ! i) = int k"
    "next_run_at (follow_up_executions w ! i) = Some t"
    "has_steps (follow_up_steps w) s n" "k < n" "length es = n - k"
    "clock_advanced (follow_up_steps w) s t k es" "list_all healthy es"
    "only_execution w i" "step_sequence_id st = s"
  shows "stepEntries (exec_lead_id (follow_up_executions w ! i)) st (dueRuns es w) \<le>
         stepEntries (exec_lead_id (follow_up_executions w ! i)) st w +
           (if int k < step_order st \<and> step_order st \<le> int n then 1 else 0)"
  using assms
proof (induction es arbitrary: w k t)
  case Nil
  then show ?case by simp
next
  case (Cons e es)
  let ?w1 = "snd (processDueFollowUps e w)"
  let ?l = "exec_lead_id (follow_up_executions w ! i)"
  have h: "healthy e" using Cons.prems(11) by simp
  have sq: "step_sequence_id st = exec_sequence_id (follow_up_executions w ! i)"
    using Cons.prems(4,13) by simp
  have up: "stepEntries ?l st ?w1 \<le>
            stepEntries ?l st w + (if int k + 1 = step_order st then 1 else 0)"
    using due_entries_le [OF Cons.prems(12,1) sq, of e] Cons.prems(5) by simp
  show ?case
  proof (cases "Suc k = n")
    case True
    have es: "es = []" using Cons.prems(9) True by auto
    show ?thesis
      using up True by (auto simp: es split: if_splits)
  next
    case False
    then have lt: "Suc k < n" using Cons.prems(8) by simp
    obtain t' where a:
      "exec_status (follow_up_executions ?w1 ! i) = active"
      "current_step (follow_up_executions ?w1 ! i) = int (Suc k)"
      "next_run_at (follow_up_executions ?w1 ! i) = Some t'"
      "clock_advanced (follow_up_steps w) s t' (Suc k) es"
      using run_advance [OF Cons.prems(1,2,3,4,5,6,7) lt Cons.prems(10) h] by blast
    have ih: "stepEntries (exec_lead_id (follow_up_executions ?w1 ! i)) st (dueRuns es ?w1) \<le>
              stepEntries (exec_lead_id (follow_up_executions ?w1 ! i)) st ?w1 +
                (if int (Suc k) < step_order st \<and> step_order st \<le> int n then 1 else 0)"
    proof (rule Cons.IH [where t = t'])
      show "i < length (follow_up_executions ?w1)" using Cons.prems(1) by simp
      show "exec_lead_id (follow_up_executions ?w1 ! i) < length (leads ?w1)"
        using Cons.prems(2) by (simp add: due_keys)
      show "exec_status (follow_up_executions ?w1 ! i) = active" by (rule a(1))
      show "exec_sequence_id (follow_up_executions ?w1 ! i) = s"
        using Cons.prems(4) by (simp add: due_keys)
      show "current_step (follow_up_executions ?w1 ! i) = int (Suc k)" by (rule a(2))
      show "next_run_at (follow_up_executions ?w1 ! i) = Some t'" by (rule a(3))
      show "has_steps (follow_up_steps ?w1) s n" using Cons.prems(7) by simp
      show "Suc k < n" by (rule lt)
      show "length es = n - Suc k" using Cons.prems(9) by simp
      show "clock_advanced (follow_up_steps ?w1) s t' (Suc k) es" using a(4) by simp
      show "list_all healthy es" using Cons.prems(11) by simp
      show "only_execution ?w1 i" using Cons.prems(12) by (simp add: due_only)
      show "step_sequence_id st = s" by (rule Cons.prems(13))
    qed
    then have "stepEntries ?l st (dueRuns es ?w1) \<le>
               stepEntries ?l st ?w1 +
                 (if int (Suc k) < step_order st \<and> step_order st \<le> int n then 1 else 0)"
      by (simp add: due_keys)
    with up lt show ?thesis
      by (auto split: if_splits)
  qed
qed

lemma steps_logged_once_from:
  assumes "steps_logged steps s l k n w w'"
    "\<And>j st. findStep steps s (int j) = Some st \<Longrightarrow> k < j \<Longrightarrow> j \<le> n \<Longrightarrow>
        stepEntries l st w' \<le> stepEntries l st w + 1"
  shows "steps_logged_once steps s l k n w w'"
  unfolding steps_logged_once_def list_all_iff
proof
  fix j
  assume j: "j \<in> set [Suc k..<Suc n]"
  with assms(1)
  have c: "case findStep steps s (int j) of None \<Rightarrow> False
           | Some st \<Rightarrow> stepEntries l st w + 1 \<le> stepEntries l st w'"
    unfolding steps_logged_def list_all_iff by blast
  show "case findStep steps s (int j) of None \<Rightarrow> False
        | Some st \<Rightarrow> stepEntries l st w' = stepEntries l st w + 1"
  proof (cases "findStep steps s (int j)")
    case None
    with c show ?thesis by simp
  next
    case (Some st)
    have "k < j" "j \<le> n"
      using j by auto
    then have "stepEntries l st w' \<le> stepEntries l st w + 1"
      by (rule assms(2) [OF Some])
    with c Some show ?thesis by simp
  qed
qed

lemma runs_logged_once:
  assumes "i < length (follow_up_executions w)"
    "exec_lead_id (follow_up_executions w ! i) < length (leads w)"
    "exec_status (follow_up_executions w ! i) = active"
    "exec_sequence_id (follow_up_executions w ! i) = s"
    "current_step (follow_up_executions w ! i) = int k"
    "next_run_at (follow_up_executions w ! i) = Some t"
    "has_steps (follow_up_steps w) s n" "k < n" "length es = n - k"
    "clock_advanced (follow_up_steps w) s t k es" "list_all healthy es"
    "only_execution w i"
  shows "steps_logged_once (follow_up_steps w) s (exec_lead_id (follow_up_executions w ! i)) k n
           w (dueRuns es w)"
proof (rule steps_logged_once_from)
  show "steps_logged (follow_up_steps w) s (exec_lead_id (follow_up_executions w ! i)) k n
          w (dueRuns es w)"
    by (rule runs_logged [OF assms(1-11)])
next
  fix j st
  assume st: "findStep (follow_up_steps w) s (int j) = Some st" and j: "k < j" "j \<le> n"
  note f = findStep_fields [OF st]
  from runs_entries_le [OF assms(1-12) f [THEN conjunct1]]
  show "stepEntries (exec_lead_id (follow_up_executions w ! i)) st (dueRuns es w) \<le>
        stepEntries (exec_lead_id (follow_up_executions w ! i)) st w + 1"
    by (auto split: if_splits)
qed

subsection \<open>The escalation loop, had its query been answered\<close>

text \<open>
  The alerts counted below are the calls of \<^verbatim>\<open>sendSlackAlert\<close> made for a row; the
  connector itself posts nothing when \<^verbatim>\<open>SLACK_WEBHOOK_URL\<close> is not set. The time of a run is
  one reading of the clock.
\<close>

lemma escalationActivities_iff:
  "ty = t_escalation_slack \<or> ty = t_escalation_critical \<Longrightarrow>
   ty \<in> set (escalationActivities w r) \<longleftrightarrow> has_escalation w (esc_lead_id r) (esc_sla_id r) ty"
  by (force simp: escalationActivities_def has_escalation_def list_ex_iff image_iff)

lemma esc_row_fields [simp]:
  "esc_sla_id (escalation_row_of w i) = i"
  "esc_lead_id (escalation_row_of w i) = sla_lead_id (sla_events w ! i)"
  "esc_deadline_at (escalation_row_of w i) = deadline_at (sla_events w ! i)"
  by (simp_all add: escalation_row_of_def)

lemma has_escalation_append:
  "has_escalation (w\<lparr>activities := activities w @ [a]\<rparr>) l i ty \<longleftrightarrow>
   has_escalation w l i ty \<or>
   (act_lead_id a = l \<and> act_type a = ty \<and>
    jsonb_contains (metadata a) [(''sla_id'', JNum (int i))])"
  by (auto simp: has_escalation_def)

lemma has_escalation_outbox [simp]:
  "has_escalation (snd (send e m w)) l i ty = has_escalation w l i ty"
  by (simp add: has_escalation_def)

lemma logEscalation_has:
  "has_escalation (logEscalation e l j ty s w) l' i ty' \<longleftrightarrow>
   has_escalation w l' i ty' \<or> (l = l' \<and> ty = ty' \<and> j = i)"
  by (auto simp: logEscalation_def has_escalation_append jsonb_contains_def)

lemma logEscalation_frame [simp]:
  "outbox (logEscalation e l j ty s w) = outbox w"
  "sla_events (logEscalation e l j ty s w) = sla_events w"
  "leads (logEscalation e l j ty s w) = leads w"
  by (simp_all add: logEscalation_def)

lemma escalateToSlack_simps:
  "fst (escalateToSlack e j ctx w) = delivers e (SlackAlert warning (EscalationSlackText j ctx))"
  "outbox (snd (escalateToSlack e j ctx w)) = outbox w @ [SlackAlert warning (EscalationSlackText j ctx)]"
  "sla_events (snd (escalateToSlack e j ctx w)) = sla_events w"
  "leads (snd (escalateToSlack e j ctx w)) = leads w"
  "has_escalation (snd (escalateToSlack e j ctx w)) l i ty = has_escalation w l i ty"
  by (simp_all add: escalateToSlack_def send_def has_escalation_def)

lemma escalateToCritical_frame:
  "sla_events (snd (escalateToCritical e j ctx t w)) = sla_events w"
  "leads (snd (escalateToCritical e j ctx t w)) = leads w"
  "has_escalation (snd (escalateToCritical e j ctx t w)) l i ty = has_escalation w l i ty"
  by (simp_all add: escalateToCritical_def Let_def send_def has_escalation_def split: option.splits)

lemma escalateToCritical_alerts:
  "level1Alerts i (snd (escalateToCritical e j ctx t w)) = level1Alerts i w"
  "level2Alerts i (snd (escalateToCritical e j ctx t w)) = level2Alerts i w + (if i = j then 1 else 0)"
  by (simp_all add: escalateToCritical_def Let_def send_def level1Alerts_def level2Alerts_def
      split: option.splits)

lemma escalateToCritical_ok:
  "\<forall>m. delivers e m \<Longrightarrow> fst (escalateToCritical e j ctx t w)"
  by (simp add: escalateToCritical_def Let_def send_def split: option.splits)


lemma escalateToSlack_alerts:
  "level1Alerts i (snd (escalateToSlack e j ctx w)) = level1Alerts i w + (if i = j then 1 else 0)"
  "level2Alerts i (snd (escalateToSlack e j ctx w)) = level2Alerts i w"
  by (simp_all add: escalateToSlack_def send_def level1Alerts_def level2Alerts_def)

lemma logEscalation_alerts [simp]:
  "level1Alerts i (logEscalation e l j ty s w) = level1Alerts i w"
  "level2Alerts i (logEscalation e l j ty s w) = level2Alerts i w"
  by (simp_all add: level1Alerts_def level2Alerts_def)

lemmas escalate_simps =
  escalateToSlack_simps(3,4,5) escalateToSlack_alerts escalateToCritical_frame
  escalateToCritical_alerts logEscalation_has

lemma escalateOne_frame [simp]:
  "sla_events (snd (escalateOne e r st)) = sla_events (snd st)"
  "leads (snd (escalateOne e r st)) = leads (snd st)"
  by (simp_all add: escalateOne_def Let_def escalate_simps)

lemma escalateOne_other:
  assumes "i \<noteq> esc_sla_id r"
  shows "level1Alerts i (snd (escalateOne e r st)) = level1Alerts i (snd st)"
    "level2Alerts i (snd (escalateOne e r st)) = level2Alerts i (snd st)"
    "has_escalation (snd (escalateOne e r st)) l i ty = has_escalation (snd st) l i ty"
  using assms by (simp_all add: escalateOne_def Let_def escalate_simps)

lemma escalateOne_row:
  assumes "\<forall>m. delivers e m" "30 \<le> (now e - esc_deadline_at r) div 60000"
  shows "level1Alerts (esc_sla_id r) (snd (escalateOne e r st)) =
           level1Alerts (esc_sla_id r) (snd st) +
           (if has_escalation (snd st) (esc_lead_id r) (esc_sla_id r) t_escalation_slack then 0 else 1)"
    "level2Alerts (esc_sla_id r) (snd (escalateOne e r st)) =
           level2Alerts (esc_sla_id r) (snd st) +
           (if has_escalation (snd st) (esc_lead_id r) (esc_sla_id r) t_escalation_critical then 0 else 1)"
    "has_escalation (snd (escalateOne e r st)) (esc_lead_id r) (esc_sla_id r) t_escalation_slack"
    "has_escalation (snd (escalateOne e r st)) (esc_lead_id r) (esc_sla_id r) t_escalation_critical"
proof -
  have m: "15 \<le> (now e - esc_deadline_at r) div 60000"
    using assms(2) by simp
  have ok: "\<And>j ctx w. fst (escalateToSlack e j ctx w)"
    "\<And>j ctx t w. fst (escalateToCritical e j ctx t w)"
    using assms(1) by (simp_all add: escalateToSlack_simps(1) escalateToCritical_ok)
  show "level1Alerts (esc_sla_id r) (snd (escalateOne e r st)) =
           level1Alerts (esc_sla_id r) (snd st) +
           (if has_escalation (snd st) (esc_lead_id r) (esc_sla_id r) t_escalation_slack then 0 else 1)"
    using m assms(2) ok
    by (cases "has_escalation (snd st) (esc_lead_id r) (esc_sla_id r) t_escalation_slack";
        cases "has_escalation (snd st) (esc_lead_id r) (esc_sla_id r) t_escalation_critical")
       (simp_all add: escalateOne_def Let_def escalate_simps escalationActivities_iff)
  show "level2Alerts (esc_sla_id r) (snd (escalateOne e r st)) =
           level2Alerts (esc_sla_id r) (snd st) +
           (if has_escalation (snd st) (esc_lead_id r) (esc_sla_id r) t_escalation_critical then 0 else 1)"
    using m assms(2) ok
    by (cases "has_escalation (snd st) (esc_lead_id r) (esc_sla_id r) t_escalation_slack";
        cases "has_escalation (snd st) (esc_lead_id r) (esc_sla_id r) t_escalation_critical")
       (simp_all add: escalateOne_def Let_def escalate_simps escalationActivities_iff)
  show "has_escalation (snd (escalateOne e r st)) (esc_lead_id r) (esc_sla_id r) t_escalation_slack"
    using m assms(2) ok
    by (cases "has_escalation (snd st) (esc_lead_id r) (esc_sla_id r) t_escalation_slack";
        cases "has_escalation (snd st) (esc_lead_id r) (esc_sla_id r) t_escalation_critical")
       (simp_all add: escalateOne_def Let_def escalate_simps escalationActivities_iff)
  show "has_escalation (snd (escalateOne e r st)) (esc_lead_id r) (esc_sla_id r) t_escalation_critical"
    using m assms(2) ok
    by (cases "has_escalation (snd st) (esc_lead_id r) (esc_sla_id r) t_escalation_slack";
        cases "has_escalation (snd st) (esc_lead_id r) (esc_sla_id r) t_escalation_critical")
       (simp_all add: escalateOne_def Let_def escalate_simps escalationActivities_iff)
qed


lemma escalation_ids:
  "map esc_sla_id (selectEscalation w) = filter (breached_open w) [0..<length (sla_events w)]"
  by (simp add: selectEscalation_def comp_def)

lemma escalation_iff:
  "i \<in> esc_sla_id ` set (selectEscalation w) \<longleftrightarrow>
   i < length (sla_events w) \<and> breached_open w i"
  unfolding set_map [symmetric] escalation_ids by auto

lemma escalation_distinct: "distinct (map esc_sla_id (selectEscalation w))"
  by (simp add: escalation_ids)

lemma escalation_row: "r \<in> set (selectEscalation w) \<Longrightarrow> r = escalation_row_of w (esc_sla_id r)"
  by (auto simp: selectEscalation_def)

lemma split_escalation:
  assumes "i < length (sla_events w)" "breached_open w i"
  shows "\<exists>rs1 rs2. selectEscalation w = rs1 @ escalation_row_of w i # rs2 \<and>
           i \<notin> set (map esc_sla_id rs1) \<and> i \<notin> set (map esc_sla_id rs2)"
proof -
  have "i \<in> esc_sla_id ` set (selectEscalation w)"
    using assms by (simp add: escalation_iff)
  then obtain r where r: "r \<in> set (selectEscalation w)" "esc_sla_id r = i"
    by auto
  then have rr: "r = escalation_row_of w i"
    using escalation_row by blast
  from r(1) obtain rs1 rs2 where s: "selectEscalation w = rs1 @ r # rs2"
    by (auto dest: split_list)
  have "distinct (map esc_sla_id (rs1 @ r # rs2))"
    using escalation_distinct [of w] s by simp
  then have "esc_sla_id r \<notin> set (map esc_sla_id rs1)" "esc_sla_id r \<notin> set (map esc_sla_id rs2)"
    by auto
  with s rr r(2) show ?thesis by auto
qed

lemma fold_escalate_frame [simp]:
  "sla_events (snd (fold (escalateOne e) rs st)) = sla_events (snd st)"
  "leads (snd (fold (escalateOne e) rs st)) = leads (snd st)"
  by (induction rs arbitrary: st) simp_all

lemma fold_escalate_other:
  "i \<notin> set (map esc_sla_id rs) \<Longrightarrow>
   level1Alerts i (snd (fold (escalateOne e) rs st)) = level1Alerts i (snd st) \<and>
   level2Alerts i (snd (fold (escalateOne e) rs st)) = level2Alerts i (snd st) \<and>
   has_escalation (snd (fold (escalateOne e) rs st)) l i ty = has_escalation (snd st) l i ty"
  by (induction rs arbitrary: st) (auto simp: escalateOne_other)

lemma loop_frame [simp]:
  "sla_events (snd (escalationLoop e w)) = sla_events w"
  "leads (snd (escalationLoop e w)) = leads w"
  by (simp_all add: escalationLoop_def)

lemma loop_selected:
  assumes "i < length (sla_events w)" "breached_open w i" "\<forall>m. delivers e m"
    "30 \<le> (now e - deadline_at (sla_events w ! i)) div 60000"
  shows "level1Alerts i (snd (escalationLoop e w)) =
           level1Alerts i w +
           (if has_escalation w (sla_lead_id (sla_events w ! i)) i t_escalation_slack then 0 else 1)"
    "level2Alerts i (snd (escalationLoop e w)) =
           level2Alerts i w +
           (if has_escalation w (sla_lead_id (sla_events w ! i)) i t_escalation_critical then 0 else 1)"
    "has_escalation (snd (escalationLoop e w)) (sla_lead_id (sla_events w ! i)) i t_escalation_slack"
    "has_escalation (snd (escalationLoop e w)) (sla_lead_id (sla_events w ! i)) i t_escalation_critical"
proof -
  obtain rs1 rs2 where s: "selectEscalation w = rs1 @ escalation_row_of w i # rs2"
    "i \<notin> set (map esc_sla_id rs1)" "i \<notin> set (map esc_sla_id rs2)"
    using split_escalation [OF assms(1,2)] by blast
  let ?r = "escalation_row_of w i"
  let ?L = "sla_lead_id (sla_events w ! i)"
  let ?st1 = "fold (escalateOne e) rs1 (0, w)"
  let ?st2 = "escalateOne e ?r ?st1"
  have w3: "snd (escalationLoop e w) = snd (fold (escalateOne e) rs2 ?st2)"
    by (simp add: escalationLoop_def s(1))
  have a: "level1Alerts i (snd ?st1) = level1Alerts i w"
    "level2Alerts i (snd ?st1) = level2Alerts i w"
    "\<And>ty. has_escalation (snd ?st1) ?L i ty = has_escalation w ?L i ty"
    using fold_escalate_other [OF s(2), of e "(0, w)" ?L] by simp_all
  have d: "30 \<le> (now e - esc_deadline_at ?r) div 60000"
    using assms(4) by simp
  note row = escalateOne_row [OF assms(3) d, of ?st1]
  note rest = fold_escalate_other [OF s(3), of e ?st2 ?L]
  show "level1Alerts i (snd (escalationLoop e w)) =
           level1Alerts i w + (if has_escalation w ?L i t_escalation_slack then 0 else 1)"
    using row(1) rest a by (simp add: w3)
  show "level2Alerts i (snd (escalationLoop e w)) =
           level2Alerts i w + (if has_escalation w ?L i t_escalation_critical then 0 else 1)"
    using row(2) rest a by (simp add: w3)
  show "has_escalation (snd (escalationLoop e w)) ?L i t_escalation_slack"
    using row(3) rest by (simp add: w3)
  show "has_escalation (snd (escalationLoop e w)) ?L i t_escalation_critical"
    using row(4) rest by (simp add: w3)
qed

text \<open>The breach check leaves the escalation records alone.\<close>

lemma breachOne_has:
  "ty \<noteq> t_sla_breach \<Longrightarrow> has_escalation (breachOne e r w) l i ty = has_escalation w l i ty"
  by (simp add: breachOne_def Let_def send_def has_escalation_def split: option.splits)

lemma fold_breach_has:
  "ty \<noteq> t_sla_breach \<Longrightarrow>
   has_escalation (fold (breachOne e) rs w) l i ty = has_escalation w l i ty"
  by (induction rs arbitrary: w) (simp_all add: breachOne_has)

lemma check_has:
  "ty \<noteq> t_sla_breach \<Longrightarrow>
   has_escalation (snd (checkSlaBreaches e w)) l i ty = has_escalation w l i ty"
  by (simp add: check_world fold_breach_has)

lemma check_row:
  assumes "i < length (sla_events w)" "completed_at (sla_events w ! i) = None"
    "sla_lead_id (sla_events w ! i) < length (leads w)" "deadline_at (sla_events w ! i) < now e"
  shows "breached_open (snd (checkSlaBreaches e w)) i"
    "completed_at (sla_events (snd (checkSlaBreaches e w)) ! i) = None"
    "sla_lead_id (sla_events (snd (checkSlaBreaches e w)) ! i) = sla_lead_id (sla_events w ! i)"
    "deadline_at (sla_events (snd (checkSlaBreaches e w)) ! i) = deadline_at (sla_events w ! i)"
proof -
  have "sla_events (snd (checkSlaBreaches e w)) ! i = sla_events w ! i \<and> breached (sla_events w ! i)
      \<or> (\<exists>n. sla_events (snd (checkSlaBreaches e w)) ! i =
            (sla_events w ! i)\<lparr>breached := True, notified := n\<rparr>)"
  proof (cases "open_past_deadline e w i")
    case True
    then show ?thesis
      using check_selected(1) [OF assms(1) True] by blast
  next
    case False
    then have "breached (sla_events w ! i)"
      using assms by (simp add: open_past_deadline_def)
    moreover have "sla_events (snd (checkSlaBreaches e w)) ! i = sla_events w ! i"
      using check_not_selected(1) [of i w e] False by simp
    ultimately show ?thesis by simp
  qed
  then show "breached_open (snd (checkSlaBreaches e w)) i"
    "completed_at (sla_events (snd (checkSlaBreaches e w)) ! i) = None"
    "sla_lead_id (sla_events (snd (checkSlaBreaches e w)) ! i) = sla_lead_id (sla_events w ! i)"
    "deadline_at (sla_events (snd (checkSlaBreaches e w)) ! i) = deadline_at (sla_events w ! i)"
    using assms by (auto simp: breached_open_def)
qed


lemma cycle_step:
  assumes "i < length (sla_events w)" "completed_at (sla_events w ! i) = None"
    "sla_lead_id (sla_events w ! i) < length (leads w)"
    "deadline_at (sla_events w ! i) + 40 * 60000 \<le> now e" "\<forall>m. delivers e m"
  shows "level1Alerts i (snd (escalationLoop e (snd (checkSlaBreaches e w)))) =
           level1Alerts i w +
           (if has_escalation w (sla_lead_id (sla_events w ! i)) i t_escalation_slack then 0 else 1)"
    "level2Alerts i (snd (escalationLoop e (snd (checkSlaBreaches e w)))) =
           level2Alerts i w +
           (if has_escalation w (sla_lead_id (sla_events w ! i)) i t_escalation_critical then 0 else 1)"
    "has_escalation (snd (escalationLoop e (snd (checkSlaBreaches e w))))
       (sla_lead_id (sla_events w ! i)) i t_escalation_slack"
    "has_escalation (snd (escalationLoop e (snd (checkSlaBreaches e w))))
       (sla_lead_id (sla_events w ! i)) i t_escalation_critical"
    "completed_at (sla_events (snd (escalationLoop e (snd (checkSlaBreaches e w)))) ! i) = None"
    "sla_lead_id (sla_events (snd (escalationLoop e (snd (checkSlaBreaches e w)))) ! i) =
       sla_lead_id (sla_events w ! i)"
    "deadline_at (sla_events (snd (escalationLoop e (snd (checkSlaBreaches e w)))) ! i) =
       deadline_at (sla_events w ! i)"
proof -
  let ?w1 = "snd (checkSlaBreaches e w)"
  have past: "deadline_at (sla_events w ! i) < now e"
    using assms(4) by simp
  note r = check_row [OF assms(1,2,3) past]
  have l: "i < length (sla_events ?w1)"
    using assms(1) by simp
  have "40 * 60000 \<le> now e - deadline_at (sla_events w ! i)"
    using assms(4) by simp
  then have "(40 * 60000) div 60000 \<le> (now e - deadline_at (sla_events w ! i)) div 60000"
    by (intro zdiv_mono1) simp_all
  then have m: "30 \<le> (now e - deadline_at (sla_events ?w1 ! i)) div 60000"
    by (simp add: r(4))
  note s = loop_selected [OF l r(1) assms(5) m]
  show "level1Alerts i (snd (escalationLoop e ?w1)) =
           level1Alerts i w +
           (if has_escalation w (sla_lead_id (sla_events w ! i)) i t_escalation_slack then 0 else 1)"
    using s(1) by (simp add: r(3) check_has)
  show "level2Alerts i (snd (escalationLoop e ?w1)) =
           level2Alerts i w +
           (if has_escalation w (sla_lead_id (sla_events w ! i)) i t_escalation_critical then 0 else 1)"
    using s(2) by (simp add: r(3) check_has)
  show "has_escalation (snd (escalationLoop e ?w1)) (sla_lead_id (sla_events w ! i)) i t_escalation_slack"
    using s(3) by (simp add: r(3))
  show "has_escalation (snd (escalationLoop e ?w1)) (sla_lead_id (sla_events w ! i)) i
          t_escalation_critical"
    using s(4) by (simp add: r(3))
  show "completed_at (sla_events (snd (escalationLoop e ?w1)) ! i) = None"
    "sla_lead_id (sla_events (snd (escalationLoop e ?w1)) ! i) = sla_lead_id (sla_events w ! i)"
    "deadline_at (sla_events (snd (escalationLoop e ?w1)) ! i) = deadline_at (sla_events w ! i)"
    using r by simp_all
qed

lemma cycles_settled:
  assumes "i < length (sla_events w)" "completed_at (sla_events w ! i) = None"
    "sla_lead_id (sla_events w ! i) < length (leads w)"
    "list_all (\<lambda>c. deadline_at (sla_events w ! i) + 40 * 60000 \<le> now c \<and> (\<forall>m. delivers c m)) es"
    "has_escalation w (sla_lead_id (sla_events w ! i)) i t_escalation_slack"
    "has_escalation w (sla_lead_id (sla_events w ! i)) i t_escalation_critical"
  shows "level1Alerts i (loopCycles es w) = level1Alerts i w \<and>
         level2Alerts i (loopCycles es w) = level2Alerts i w"
  using assms
proof (induction es arbitrary: w)
  case Nil
  then show ?case by simp
next
  case (Cons e es)
  let ?w' = "snd (escalationLoop e (snd (checkSlaBreaches e w)))"
  have e: "deadline_at (sla_events w ! i) + 40 * 60000 \<le> now e" "\<forall>m. delivers e m"
    using Cons.prems(4) by simp_all
  note c = cycle_step [OF Cons.prems(1,2,3) e]
  have "level1Alerts i (loopCycles es ?w') = level1Alerts i ?w' \<and>
        level2Alerts i (loopCycles es ?w') = level2Alerts i ?w'"
  proof (rule Cons.IH)
    show "i < length (sla_events ?w')" using Cons.prems(1) by simp
    show "completed_at (sla_events ?w' ! i) = None" by (rule c(5))
    show "sla_lead_id (sla_events ?w' ! i) < length (leads ?w')"
      using Cons.prems(3) c(6) by simp
    show "list_all (\<lambda>c. deadline_at (sla_events ?w' ! i) + 40 * 60000 \<le> now c \<and>
                        (\<forall>m. delivers c m)) es"
      using Cons.prems(4) c(7) by simp
    show "has_escalation ?w' (sla_lead_id (sla_events ?w' ! i)) i t_escalation_slack"
      using c(3) c(6) by simp
    show "has_escalation ?w' (sla_lead_id (sla_events ?w' ! i)) i t_escalation_critical"
      using c(4) c(6) by simp
  qed
  with c(1,2) Cons.prems(5,6) show ?case by simp
qed

lemma escalation_loop_exactly_once:
  assumes "i < length (sla_events w)" "completed_at (sla_events w ! i) = None"
    "sla_lead_id (sla_events w ! i) < length (leads w)" "es \<noteq> []"
    "list_all (\<lambda>c. deadline_at (sla_events w ! i) + 40 * 60000 \<le> now c \<and> (\<forall>m. delivers c m)) es"
  shows "level1Alerts i (loopCycles es w) =
           level1Alerts i w +
           (if has_escalation w (sla_lead_id (sla_events w ! i)) i t_escalation_slack then 0 else 1)"
    and "level2Alerts i (loopCycles es w) =
           level2Alerts i w +
           (if has_escalation w (sla_lead_id (sla_events w ! i)) i t_escalation_critical then 0 else 1)"
proof -
  obtain e es' where es: "es = e # es'"
    using assms(4) by (cases es) auto
  let ?w' = "snd (escalationLoop e (snd (checkSlaBreaches e w)))"
  have e: "deadline_at (sla_events w ! i) + 40 * 60000 \<le> now e" "\<forall>m. delivers e m"
    using assms(5) es by simp_all
  note c = cycle_step [OF assms(1,2,3) e]
  have rest: "level1Alerts i (loopCycles es' ?w') = level1Alerts i ?w' \<and>
        level2Alerts i (loopCycles es' ?w') = level2Alerts i ?w'"
  proof (rule cycles_settled)
    show "i < length (sla_events ?w')" using assms(1) by simp
    show "completed_at (sla_events ?w' ! i) = None" by (rule c(5))
    show "sla_lead_id (sla_events ?w' ! i) < length (leads ?w')"
      using assms(3) c(6) by simp
    show "list_all (\<lambda>c. deadline_at (sla_events ?w' ! i) + 40 * 60000 \<le> now c \<and>
                        (\<forall>m. delivers c m)) es'"
      using assms(5) es c(7) by simp
    show "has_escalation ?w' (sla_lead_id (sla_events ?w' ! i)) i t_escalation_slack"
      using c(3) c(6) by simp
    show "has_escalation ?w' (sla_lead_id (sla_events ?w' ! i)) i t_escalation_critical"
      using c(4) c(6) by simp
  qed
  show "level1Alerts i (loopCycles es w) =
           level1Alerts i w +
           (if has_escalation w (sla_lead_id (sla_events w ! i)) i t_escalation_slack then 0 else 1)"
    using rest c(1) by (simp add: es)
  show "level2Alerts i (loopCycles es w) =
           level2Alerts i w +
           (if has_escalation w (sla_lead_id (sla_events w ! i)) i t_escalation_critical then 0 else 1)"
    using rest c(2) by (simp add: es)
qed

section \<open>Theorems\<close>

text \<open>
  C1. The idempotency guard \<open>isNewWebhookEvent\<close>: on a healthy store a fresh key inserts
  one row in status \<open>received\<close> and the result is \<open>true\<close>; when the insert hits the
  uniqueness violation (the key is already stored, or the driver reports SQLSTATE 23505)
  the result is \<open>false\<close>, no error is raised and nothing is written; any other storage
  failure is re-thrown to the caller. The Meta webhook handler skips a change the guard
  reports as duplicate: once a change has been handled on a healthy store, handling a
  change with the same leadgen id again (in any environment) leaves the whole store, the
  \<open>leads\<close> table in particular, as it was.
\<close>

theorem C1_idempotency_guard:
  "(insert_fault e = None \<and> key \<notin> set (map idempotency_key (webhook_logs w)) \<longrightarrow>
      isNewWebhookEvent e src ty key pl w =
        (Inr True, w\<lparr>webhook_logs := webhook_logs w @
           [\<lparr>wh_source = src, event_type = ty, payload = pl, wh_status = received,
             idempotency_key = key, wh_error = None\<rparr>]\<rparr>))
   \<and> ((insert_fault e = None \<and> key \<in> set (map idempotency_key (webhook_logs w)))
        \<or> (\<exists>err. insert_fault e = Some err \<and> err_code err = Some ''23505'') \<longrightarrow>
      isNewWebhookEvent e src ty key pl w = (Inr False, w))
   \<and> (insert_fault e = Some err \<and> err_code err \<noteq> Some ''23505'' \<longrightarrow>
      isNewWebhookEvent e src ty key pl w = (Inl err, w))
   \<and> (insert_fault e = None \<and> ch_field ch' = ch_field ch \<and> leadgen_id ch' = leadgen_id ch \<longrightarrow>
      snd (handleChange e' ch' (snd (handleChange e ch w))) = snd (handleChange e ch w) \<and>
      leads (snd (handleChange e' ch' (snd (handleChange e ch w)))) = leads (snd (handleChange e ch w)))"
proof (intro conjI impI)
  assume "insert_fault e = None \<and> key \<notin> set (map idempotency_key (webhook_logs w))"
  then show "isNewWebhookEvent e src ty key pl w =
        (Inr True, w\<lparr>webhook_logs := webhook_logs w @
           [\<lparr>wh_source = src, event_type = ty, payload = pl, wh_status = received,
             idempotency_key = key, wh_error = None\<rparr>]\<rparr>)"
    by (simp add: isNew_fresh)
next
  assume "(insert_fault e = None \<and> key \<in> set (map idempotency_key (webhook_logs w)))
        \<or> (\<exists>err. insert_fault e = Some err \<and> err_code err = Some ''23505'')"
  then show "isNewWebhookEvent e src ty key pl w = (Inr False, w)"
    by (auto simp: isNew_dup isNew_fault)
next
  assume "insert_fault e = Some err \<and> err_code err \<noteq> Some ''23505''"
  then show "isNewWebhookEvent e src ty key pl w = (Inl err, w)"
    by (simp add: isNew_fault)
next
  assume a: "insert_fault e = None \<and> ch_field ch' = ch_field ch \<and> leadgen_id ch' = leadgen_id ch"
  show same: "snd (handleChange e' ch' (snd (handleChange e ch w))) = snd (handleChange e ch w)"
  proof (cases "ch_field ch = ''leadgen'' \<and> truthy_str (leadgen_id ch)")
    case True
    then obtain k where k: "leadgen_id ch = Some k" "k \<noteq> []"
      by (auto simp: truthy_str_def split: option.splits)
    from a True k
    have "''meta_'' @ k \<in> set (map idempotency_key (webhook_logs (snd (handleChange e ch w))))"
      by (intro handleChange_records_key) simp_all
    moreover from a k have "leadgen_id ch' = Some k" by simp
    ultimately show ?thesis by (rule handleChange_duplicate)
  next
    case False
    with a have n: "ch_field ch' \<noteq> ''leadgen'' \<or> \<not> truthy_str (leadgen_id ch')" by auto
    from False have "snd (handleChange e ch w) = w"
      by (auto simp: handleChange_def)
    moreover from n have "snd (handleChange e' ch' w) = w"
      by (auto simp: handleChange_def)
    ultimately show ?thesis by simp
  qed
  then show "leads (snd (handleChange e' ch' (snd (handleChange e ch w)))) = leads (snd (handleChange e ch w))"
    by simp
qed

theorem C1_idempotency_guard_witness:
  "isNewWebhookEvent env_ok ''meta_ads'' ''leadgen'' ''meta_1'' JNull world_empty =
     (Inr True, world_empty\<lparr>webhook_logs :=
        [\<lparr>wh_source = ''meta_ads'', event_type = ''leadgen'', payload = JNull,
          wh_status = received, idempotency_key = ''meta_1'', wh_error = None\<rparr>]\<rparr>)
   \<and> isNewWebhookEvent (env_ok\<lparr>insert_fault := Some (DbError (Some ''23505''))\<rparr>)
       ''meta_ads'' ''leadgen'' ''meta_1'' JNull world_empty = (Inr False, world_empty)
   \<and> isNewWebhookEvent (env_ok\<lparr>insert_fault := Some (DbError (Some ''08006''))\<rparr>)
       ''meta_ads'' ''leadgen'' ''meta_1'' JNull world_empty =
       (Inl (DbError (Some ''08006'')), world_empty)
   \<and> leads (snd (handleChange env_ok change_1 (snd (handleChange env_ok change_1 world_empty)))) =
     leads (snd (handleChange env_ok change_1 world_empty))"
  using
    C1_idempotency_guard [where e = env_ok and key = "''meta_1''" and w = world_empty
      and src = "''meta_ads''" and ty = "''leadgen''" and pl = JNull and ch = change_1
      and ch' = change_1 and e' = env_ok]
    C1_idempotency_guard [where e = "env_ok\<lparr>insert_fault := Some (DbError (Some ''23505''))\<rparr>"
      and key = "''meta_1''" and w = world_empty and src = "''meta_ads''" and ty = "''leadgen''"
      and pl = JNull]
    C1_idempotency_guard [where e = "env_ok\<lparr>insert_fault := Some (DbError (Some ''08006''))\<rparr>"
      and key = "''meta_1''" and w = world_empty and src = "''meta_ads''" and ty = "''leadgen''"
      and pl = JNull and err = "DbError (Some ''08006'')"]
  by (simp add: env_ok_def world_empty_def)

text \<open>
  C8. Phone normalization satisfies the three reference equations: an 11-digit national
  number gets the country code; a legacy 10-digit number (8-digit local part) gets the
  country code and the mobile ninth digit; punctuation, spaces and the plus sign are
  stripped.
\<close>

theorem C8_normalizePhone_reference:
  "normalizePhone ''11999887766'' = ''5511999887766'' \<and>
   normalizePhone ''1198765432'' = ''5511998765432'' \<and>
   normalizePhone ''+55 (11) 99988-7766'' = ''5511999887766''"
  by (simp add: normalizePhone_def is_digit_def startsWith_def)

text \<open>
  C5 (amended). When \<open>ingestLead\<close> finds a Lead with the input's normalized phone, each of
  the six merged fields (email, client type, project type, project stage, location,
  estimated ticket) takes the incoming value exactly when the stored value is empty as
  the code reads it and the incoming value is not empty in JavaScript's sense (not
  \<open>null\<close>, not the empty string, not the number 0); otherwise it keeps the stored value.
  A stored email or location is empty when it is \<open>null\<close> or the empty string; a stored
  client type, project type, project stage or estimated ticket is empty only when it is
  \<open>null\<close>: the ticket is read from its \<open>NUMERIC\<close> column as text, so a stored ticket of 0 is
  the non-empty string \<open>"0"\<close> and is never replaced. Nothing else of the row changes but
  \<open>updated_at\<close>, no other row changes, and a stored non-empty email is never replaced.
\<close>

theorem C5_merge_fills_empty_fields:
  assumes "find_row (\<lambda>l. phone_normalized l = normalizePhone (phone input)) (leads w) = Some i"
  shows "let old = leads w ! i; new = leads (snd (ingestLead e input w)) ! i in
      email new = (if \<not> truthy_str (email old) \<and> truthy_str (email input)
                   then email input else email old) \<and>
      client_type new = (if \<not> present (client_type old) \<and> present (client_type input)
                   then client_type input else client_type old) \<and>
      project_type new = (if \<not> present (project_type old) \<and> present (project_type input)
                   then project_type input else project_type old) \<and>
      project_stage new = (if \<not> present (project_stage old) \<and> present (project_stage input)
                   then project_stage input else project_stage old) \<and>
      location new = (if \<not> truthy_str (location old) \<and> truthy_str (location input)
                   then location input else location old) \<and>
      estimated_ticket new =
        (if \<not> present (estimated_ticket old) \<and> truthy_num (estimated_ticket input)
         then estimated_ticket input else estimated_ticket old) \<and>
      new\<lparr>updated_at := updated_at old, email := email old, client_type := client_type old,
          project_type := project_type old, project_stage := project_stage old,
          location := location old, estimated_ticket := estimated_ticket old\<rparr> = old \<and>
      (truthy_str (email old) \<longrightarrow> email new = email old) \<and>
      (estimated_ticket old = Some 0 \<longrightarrow> estimated_ticket new = Some 0) \<and>
      length (leads (snd (ingestLead e input w))) = length (leads w) \<and>
      (\<forall>j < length (leads w). j \<noteq> i \<longrightarrow> leads (snd (ingestLead e input w)) ! j = leads w ! j)"
proof -
  have i: "i < length (leads w)"
    using assms by (simp add: find_row_Some)
  have eq: "ingestLead e input w = mergeLead e i (leads w ! i) input w"
    using assms by (rule ingestLead_existing)
  show ?thesis
  proof (cases "length (merge_updates e (leads w ! i) input) > 1")
    case True
    then show ?thesis
      using i by (simp add: eq Let_def merged_row mergeLead_other_rows present_def)
  next
    case False
    then show ?thesis
      using i
      by (simp add: eq Let_def merged_row mergeLead_other_rows merge_nothing [OF False])
  qed
qed

theorem C5_merge_fills_empty_fields_witness:
  "email (leads (snd (ingestLead env_ok input_second_contact world_blank_email)) ! 0) =
     Some ''ana@parket.com'' \<and>
   location (leads (snd (ingestLead env_ok input_second_contact world_blank_email)) ! 0) = None \<and>
   estimated_ticket (leads (snd (ingestLead env_ok input_second_contact world_blank_email)) ! 0) =
     Some 0 \<and>
   length (leads (snd (ingestLead env_ok input_second_contact world_blank_email))) = 1"
proof -
  have f: "find_row (\<lambda>l. phone_normalized l = normalizePhone (phone input_second_contact))
             (leads world_blank_email) = Some 0"
    by (simp add: input_second_contact_def world_blank_email_def world_empty_def
        lead_blank_email_def normalizePhone_def is_digit_def startsWith_def)
  have old: "leads world_blank_email ! 0 = lead_blank_email"
    by (simp add: world_blank_email_def)
  from C5_merge_fills_empty_fields [OF f, of env_ok] show ?thesis
    unfolding Let_def old
    by (simp add: lead_blank_email_def input_second_contact_def truthy_str_def present_def
        world_blank_email_def)
qed

text \<open>
  C5 as stated fails: a stored email that is the empty string (not \<open>null\<close>) is replaced
  by the incoming address, and an incoming location that is the empty string (not
  \<open>null\<close>) is not copied into the stored \<open>null\<close> location.
\<close>

theorem C5_counterexample:
  "email (leads world_blank_email ! 0) = Some [] \<and>
   email input_second_contact = Some ''ana@parket.com'' \<and>
   email (leads (snd (ingestLead env_ok input_second_contact world_blank_email)) ! 0) =
     Some ''ana@parket.com'' \<and>
   location (leads world_blank_email ! 0) = None \<and>
   location input_second_contact = Some [] \<and>
   location (leads (snd (ingestLead env_ok input_second_contact world_blank_email)) ! 0) = None"
  by (simp add: ingestLead_def mergeLead_def merge_updates_def merge_str_def merge_enum_def
      merge_num_def truthy_numeric_text truthy_str_def truthy_num_def present_def
      update_row_def Let_def
      input_second_contact_def world_blank_email_def world_empty_def lead_blank_email_def
      env_ok_def normalizePhone_def is_digit_def startsWith_def)

text \<open>
  C6 (amended). For a new lead with source \<open>meta_ads\<close>, phone 11999998888, project stage
  \<open>acabamentos\<close>, estimated ticket 150000 and no other qualification field, \<open>ingestLead\<close>
  creates the Lead with qualification score 54 (10 for the source, 20 for the stage, 20
  for the ticket, 4 for two of seven fields filled), starts a \<open>response_5min\<close> commitment
  whose deadline is now plus five minutes, and attempts exactly one outbound
  notification (the new-lead message to the SDR group) when that group is configured,
  none otherwise.
\<close>

theorem C6_meta_ads_scenario:
  assumes "source input = src_meta_ads" "phone input = ''11999998888''"
    "project_stage input = Some acabamentos" "estimated_ticket input = Some 150000"
    "email input = None" "client_type input = None" "project_type input = None"
    "location input = None" "estimated_deadline input = None"
    "find_row (\<lambda>l. phone_normalized l = ''5511999998888'') (leads w) = None"
  shows "\<exists>r w'. ingestLead e input w = (Inr r, w') \<and> isNew r \<and> score (lead r) = 54 \<and>
           length (leads w') = Suc (length (leads w)) \<and>
           score (leads w' ! length (leads w)) = 54 \<and>
           phone_normalized (leads w' ! length (leads w)) = ''5511999998888'' \<and>
           sla_events w' = sla_events w @
             [\<lparr>sla_lead_id = length (leads w), sla_type = response_5min, started_at = now e,
               deadline_at = now e + 5 * 60 * 1000, completed_at = None, breached = False,
               notified = False\<rparr>] \<and>
           outbox w' = outbox w @
             (case WHATSAPP_SDR_GROUP e of
                None \<Rightarrow> []
              | Some g \<Rightarrow>
                  if g = [] then []
                  else [GroupMessage g
                          (NewLeadText (name input) ''11999998888'' src_meta_ads None None)])"
proof -
  have sc: "scoreLead input = 54"
    using assms by (intro scoreLead_C6) simp_all
  show ?thesis
    using assms(1,2,7,8,10) sc
    by (simp add: ingestLead_def Let_def normalize_C6 split_beta startSla_def
        notifyNewLead_def truthy_str_def syncToPipedrive_def nth_append update_row_def
        split: option.splits)
qed

theorem C6_meta_ads_scenario_witness:
  "\<exists>r w'. ingestLead env_ok input_C6 world_empty = (Inr r, w') \<and> isNew r \<and>
     score (lead r) = 54 \<and> length (leads w') = 1 \<and> score (leads w' ! 0) = 54 \<and>
     phone_normalized (leads w' ! 0) = ''5511999998888'' \<and>
     sla_events w' =
       [\<lparr>sla_lead_id = 0, sla_type = response_5min, started_at = 1000,
         deadline_at = 301000, completed_at = None, breached = False, notified = False\<rparr>] \<and>
     outbox w' = [GroupMessage ''sdr'' (NewLeadText ''Ana'' ''11999998888'' src_meta_ads None None)]"
  using C6_meta_ads_scenario [of input_C6 world_empty env_ok]
  by (simp add: input_C6_def world_empty_def env_ok_def)

text \<open>
  C6 as stated fails: in the scenario the score the code computes is 54, below 80.
\<close>

theorem C6_counterexample:
  "scoreLead input_C6 = 54 \<and> \<not> 80 \<le> scoreLead input_C6 \<and>
   map score (leads (snd (ingestLead env_ok input_C6 world_empty))) = [54]"
  by (simp add: ingestLead_def Let_def split_beta startSla_def notifyNewLead_def send_def
      truthy_str_def truthy_num_def present_def syncToPipedrive_def update_row_def
      scoreLead_def Math_round_def normalizePhone_def is_digit_def startsWith_def
      input_C6_def world_empty_def env_ok_def)

text \<open>
  C7 (amended). \<open>ingestLead\<close> has no validation of the normalized phone and no
  \<open>InvalidContact\<close> error: for an input whose phone normalizes to the empty string it
  returns a result, never an error. If no Lead has an empty normalized phone it creates
  one (\<open>isNew\<close> is true, the stored \<open>phone_normalized\<close> is empty); otherwise it merges the
  input into the Lead that has it.
\<close>

theorem C7_no_contact_validation:
  assumes "normalizePhone (phone input) = []"
  shows "(find_row (\<lambda>l. phone_normalized l = []) (leads w) = None \<longrightarrow>
            (\<exists>r w'. ingestLead e input w = (Inr r, w') \<and> isNew r \<and>
               phone_normalized (lead r) = [] \<and>
               length (leads w') = Suc (length (leads w)) \<and>
               phone_normalized (leads w' ! length (leads w)) = []))
       \<and> (find_row (\<lambda>l. phone_normalized l = []) (leads w) \<noteq> None \<longrightarrow>
            (\<exists>r w'. ingestLead e input w = (Inr r, w') \<and> \<not> isNew r \<and>
               length (leads w') = length (leads w)))"
proof (intro conjI impI)
  assume "find_row (\<lambda>l. phone_normalized l = []) (leads w) = None"
  then show "\<exists>r w'. ingestLead e input w = (Inr r, w') \<and> isNew r \<and>
               phone_normalized (lead r) = [] \<and>
               length (leads w') = Suc (length (leads w)) \<and>
               phone_normalized (leads w' ! length (leads w)) = []"
    using ingestLead_new [of input w e] assms by simp
next
  assume "find_row (\<lambda>l. phone_normalized l = []) (leads w) \<noteq> None"
  then obtain i where i: "find_row (\<lambda>l. phone_normalized l = []) (leads w) = Some i"
    by auto
  then have "i < length (leads w)"
    by (simp add: find_row_Some)
  with i assms show "\<exists>r w'. ingestLead e input w = (Inr r, w') \<and> \<not> isNew r \<and>
               length (leads w') = length (leads w)"
    by (simp add: ingestLead_existing mergeLead_ok)
qed

theorem C7_no_contact_validation_witness:
  "normalizePhone (phone input_no_phone) = [] \<and>
   (\<exists>r w'. ingestLead env_ok input_no_phone world_empty = (Inr r, w') \<and> isNew r \<and>
      phone_normalized (lead r) = [] \<and> length (leads w') = 1 \<and>
      phone_normalized (leads w' ! 0) = [])"
proof -
  have n: "normalizePhone (phone input_no_phone) = []"
    by (simp add: input_no_phone_def normalizePhone_def startsWith_def)
  from C7_no_contact_validation [OF n, of world_empty env_ok] n show ?thesis
    by (simp add: world_empty_def)
qed

text \<open>
  C7 as stated fails: the input the webhook handlers build for a form without a phone
  normalizes to the empty string, and \<open>ingestLead\<close> answers with a new Lead, not an error;
  the \<open>leads\<close> table then holds a row with an empty normalized phone.
\<close>

theorem C7_counterexample:
  "normalizePhone (phone input_no_phone) = [] \<and>
   (\<exists>r. fst (ingestLead env_ok input_no_phone world_empty) = Inr r \<and> isNew r) \<and>
   map phone_normalized (leads (snd (ingestLead env_ok input_no_phone world_empty))) = [[]]"
  by (simp add: ingestLead_def Let_def split_beta startSla_def notifyNewLead_def send_def
      truthy_str_def syncToPipedrive_def update_row_def normalizePhone_def startsWith_def
      input_no_phone_def world_empty_def env_ok_def)

text \<open>
  C2. Breach monotonicity of \<open>checkSlaBreaches\<close>, for any store, any row \<open>i\<close> of
  \<open>sla_events\<close> and any sequence of sequential runs. (1) Runs whose clock has not passed
  the row's deadline never select the row and leave it as it is. (2) If the deadline has
  passed at the first run and the row is uncompleted and unbreached (its lead exists, as
  the foreign key guarantees), the statement that marks it breached is executed for it
  exactly once over the whole sequence, and it is breached at the end. (3) A row that is
  already breached is never selected and never changed by later runs.
\<close>

theorem C2_breach_monotonicity:
  assumes "i < length (sla_events w)"
  shows "(list_all (\<lambda>c. now c \<le> deadline_at (sla_events w ! i)) es \<longrightarrow>
            timesMarked i es w = 0 \<and> sla_events (checkRuns es w) ! i = sla_events w ! i)
       \<and> (deadline_at (sla_events w ! i) < now e \<and> completed_at (sla_events w ! i) = None \<and>
          \<not> breached (sla_events w ! i) \<and> sla_lead_id (sla_events w ! i) < length (leads w) \<longrightarrow>
            timesMarked i (e # es) w = 1 \<and> breached (sla_events (checkRuns (e # es) w) ! i))
       \<and> (breached (sla_events w ! i) \<longrightarrow>
            timesMarked i es w = 0 \<and> sla_events (checkRuns es w) ! i = sla_events w ! i)"
proof (intro conjI impI)
  assume "list_all (\<lambda>c. now c \<le> deadline_at (sla_events w ! i)) es"
  then show "timesMarked i es w = 0" "sla_events (checkRuns es w) ! i = sla_events w ! i"
    using runs_future by blast+
next
  assume a: "deadline_at (sla_events w ! i) < now e \<and> completed_at (sla_events w ! i) = None \<and>
          \<not> breached (sla_events w ! i) \<and> sla_lead_id (sla_events w ! i) < length (leads w)"
  then have o: "open_past_deadline e w i"
    by (simp add: open_past_deadline_def)
  have b: "breached (sla_events (snd (checkSlaBreaches e w)) ! i)"
    using assms o by (simp add: check_selected(1))
  from runs_breached [OF b, of es] assms o
  show "timesMarked i (e # es) w = 1" "breached (sla_events (checkRuns (e # es) w) ! i)"
    using b by (simp_all add: selected_iff)
next
  assume "breached (sla_events w ! i)"
  then show "timesMarked i es w = 0" "sla_events (checkRuns es w) ! i = sla_events w ! i"
    using runs_breached by blast+
qed

theorem C2_breach_monotonicity_witness:
  "timesMarked 0 [env_ok, env_ok] world_overdue = 0 \<and>
   sla_events (checkRuns [env_ok, env_ok] world_overdue) ! 0 = sla_events world_overdue ! 0 \<and>
   timesMarked 0 [env_late, env_late, env_late] world_overdue = 1 \<and>
   breached (sla_events (checkRuns [env_late, env_late, env_late] world_overdue) ! 0) \<and>
   timesMarked 0 [env_late, env_late] world_breached = 0 \<and>
   sla_events (checkRuns [env_late, env_late] world_breached) ! 0 = sla_events world_breached ! 0"
proof -
  have i: "0 < length (sla_events world_overdue)" "0 < length (sla_events world_breached)"
    by (simp_all add: world_overdue_def world_breached_def)
  have future: "list_all (\<lambda>c. now c \<le> deadline_at (sla_events world_overdue ! 0)) [env_ok, env_ok]"
    by (simp add: world_overdue_def env_ok_def)
  have past: "deadline_at (sla_events world_overdue ! 0) < now env_late \<and>
      completed_at (sla_events world_overdue ! 0) = None \<and>
      \<not> breached (sla_events world_overdue ! 0) \<and>
      sla_lead_id (sla_events world_overdue ! 0) < length (leads world_overdue)"
    by (simp add: world_overdue_def env_late_def env_ok_def)
  have br: "breached (sla_events world_breached ! 0)"
    by (simp add: world_breached_def)
  from C2_breach_monotonicity [OF i(1), where es = "[env_ok, env_ok]"] future
  have "timesMarked 0 [env_ok, env_ok] world_overdue = 0"
    "sla_events (checkRuns [env_ok, env_ok] world_overdue) ! 0 = sla_events world_overdue ! 0"
    by blast+
  moreover
  from C2_breach_monotonicity [OF i(1), where e = env_late and es = "[env_late, env_late]"] past
  have "timesMarked 0 [env_late, env_late, env_late] world_overdue = 1"
    "breached (sla_events (checkRuns [env_late, env_late, env_late] world_overdue) ! 0)"
    by blast+
  moreover
  from C2_breach_monotonicity [OF i(2), where es = "[env_late, env_late]"] br
  have "timesMarked 0 [env_late, env_late] world_breached = 0"
    "sla_events (checkRuns [env_late, env_late] world_breached) ! 0 = sla_events world_breached ! 0"
    by blast+
  ultimately show ?thesis by blast
qed

text \<open>
  C9 (amended). \<open>checkSlaBreaches\<close> is not safe against an overlapping run of itself. The
  statement that marks a row breached is keyed by the row's id alone, and the audit entry
  and the notification are decided from the values read by the run's own \<open>SELECT\<close>. So when
  two runs both select a row before either writes, each of them marks it (the statement
  runs twice) and writes a breach entry to the audit trail (at least two new entries for
  the row's lead, type and deadline; exactly two when no other row has the same three),
  and each of them sends the breach notice if the row was read as not yet notified and
  the run has the SDR group configured (two notices when both have). Double firing is
  prevented only between sequential runs: the second run's \<open>SELECT\<close> requires
  \<open>breached = false\<close> and no longer returns the row, so the row is marked once, one breach
  entry is written for it and the notice is sent once, by the first run, under the same
  condition.
\<close>

theorem C9_overlap_double_fires:
  assumes "i < length (sla_events w)" "open_past_deadline e1 w i" "open_past_deadline e2 w i"
  shows "overlapMarked i e1 e2 w = 2 \<and>
         breached (sla_events (overlappedRuns e1 e2 w) ! i) \<and>
         breachEntries (sla_events w ! i) w + 2 \<le>
           breachEntries (sla_events w ! i) (overlappedRuns e1 e2 w) \<and>
         breachNotices i (overlappedRuns e1 e2 w) =
           breachNotices i w
           + (if \<not> notified (sla_events w ! i) \<and> truthy_str (WHATSAPP_SDR_GROUP e1) then 1 else 0)
           + (if \<not> notified (sla_events w ! i) \<and> truthy_str (WHATSAPP_SDR_GROUP e2) then 1 else 0) \<and>
         timesMarked i [e1, e2] w = 1 \<and>
         breached (sla_events (checkRuns [e1, e2] w) ! i) \<and>
         breachNotices i (checkRuns [e1, e2] w) =
           breachNotices i w
           + (if \<not> notified (sla_events w ! i) \<and> truthy_str (WHATSAPP_SDR_GROUP e1) then 1 else 0) \<and>
         (only_commitment w i \<longrightarrow>
            breachEntries (sla_events w ! i) (overlappedRuns e1 e2 w) =
              breachEntries (sla_events w ! i) w + 2 \<and>
            breachEntries (sla_events w ! i) (checkRuns [e1, e2] w) =
              breachEntries (sla_events w ! i) w + 1)"
proof -
  let ?s = "sla_events w ! i"
  let ?w1 = "fold (breachOne e1) (selectBreached e1 w) w"
  let ?c1 = "snd (checkSlaBreaches e1 w)"
  have ov: "overlappedRuns e1 e2 w = fold (breachOne e2) (selectBreached e2 w) ?w1"
    by (simp add: overlappedRuns_def Let_def)
  obtain rs1 rs2 where s: "selectBreached e2 w = rs1 @ breached_row_of w i # rs2"
    "i \<notin> set (map row_id rs1)" "i \<notin> set (map row_id rs2)"
    using split_selected [OF assms(1,3)] by blast
  have n: "row_notified (breached_row_of w i) = notified (sla_events w ! i)"
    by (simp add: breached_row_of_def)
  have l1: "row_id (breached_row_of w i) < length (sla_events ?w1)"
    using assms(1) by simp
  note second = fold_breach_row [of "selectBreached e2 w" rs1 "breached_row_of w i" rs2 ?w1 e2]
  have m: "overlapMarked i e1 e2 w = 2"
    using assms by (simp add: overlapMarked_def selected_count)
  have b: "breached (sla_events (overlappedRuns e1 e2 w) ! i)"
    unfolding ov using second(1) s l1 by simp
  have en: "breachEntries ?s (overlappedRuns e1 e2 w) =
              breachEntries ?s w + length (filter (row_same ?s) (selectBreached e1 w))
              + length (filter (row_same ?s) (selectBreached e2 w))"
    unfolding ov by (simp add: fold_breach_entries)
  have ge: "breachEntries ?s w + 2 \<le> breachEntries ?s (overlappedRuns e1 e2 w)"
    using selected_same_ge [OF assms(1,2)] selected_same_ge [OF assms(1,3)]
    unfolding en by simp
  have c1: "breachNotices i ?w1 =
              breachNotices i w
              + (if \<not> notified ?s \<and> truthy_str (WHATSAPP_SDR_GROUP e1) then 1 else 0)"
    using check_selected(2) [OF assms(1,2)] by (simp add: check_world)
  have "breachNotices i (fold (breachOne e2) (selectBreached e2 w) ?w1) =
          breachNotices i ?w1
          + (if \<not> notified ?s \<and> truthy_str (WHATSAPP_SDR_GROUP e2) then 1 else 0)"
    using second(2) s l1 n by simp
  with c1 have no: "breachNotices i (overlappedRuns e1 e2 w) =
           breachNotices i w
           + (if \<not> notified ?s \<and> truthy_str (WHATSAPP_SDR_GROUP e1) then 1 else 0)
           + (if \<not> notified ?s \<and> truthy_str (WHATSAPP_SDR_GROUP e2) then 1 else 0)"
    unfolding ov by simp
  have b1: "breached (sla_events ?c1 ! i)"
    using assms by (simp add: check_selected(1))
  note later = runs_breached [OF b1, of "[e2]"]
  have tm: "timesMarked i [e1, e2] w = 1"
    using later assms(1,2) selected_iff [of i e1 w] by simp
  have bs: "breached (sla_events (checkRuns [e1, e2] w) ! i)"
    using later b1 by simp
  have ns: "breachNotices i (checkRuns [e1, e2] w) =
           breachNotices i w
           + (if \<not> notified ?s \<and> truthy_str (WHATSAPP_SDR_GROUP e1) then 1 else 0)"
    using later check_selected(2) [OF assms(1,2)] by simp
  have only: "breachEntries ?s (overlappedRuns e1 e2 w) = breachEntries ?s w + 2 \<and>
              breachEntries ?s (checkRuns [e1, e2] w) = breachEntries ?s w + 1"
    if o: "only_commitment w i"
  proof
    have same: "\<And>j. same_commitment (sla_events w ! j) (sla_events w ! j)"
      by (simp add: same_commitment_def)
    have "length (filter (row_same ?s) (selectBreached e1 w)) = 1"
      "length (filter (row_same ?s) (selectBreached e2 w)) = 1"
      using selected_same_only [OF o assms(1) refl same] assms(2,3) by simp_all
    then show "breachEntries ?s (overlappedRuns e1 e2 w) = breachEntries ?s w + 2"
      unfolding en by simp
    have f1: "length (filter (row_same ?s) (selectBreached e1 w)) = 1"
      by fact
    have len: "length (sla_events ?c1) = length (sla_events w)"
      by simp
    have nsel: "\<not> open_past_deadline e2 ?c1 i"
      using b1 by (simp add: open_past_deadline_def)
    have f2: "length (filter (row_same ?s) (selectBreached e2 ?c1)) = 0"
      using selected_same_only [OF o assms(1) len check_keys, of e2] nsel by simp
    have "breachEntries ?s (checkRuns [e1, e2] w) =
          breachEntries ?s w + length (filter (row_same ?s) (selectBreached e1 w))
          + length (filter (row_same ?s) (selectBreached e2 ?c1))"
      by (simp add: check_entries)
    then show "breachEntries ?s (checkRuns [e1, e2] w) = breachEntries ?s w + 1"
      unfolding f1 f2 by simp
  qed
  from m b ge no tm bs ns only show ?thesis
    by blast
qed

theorem C9_overlap_double_fires_witness:
  "overlapMarked 0 env_late env_late world_overdue = 2 \<and>
   breached (sla_events (overlappedRuns env_late env_late world_overdue) ! 0) \<and>
   breachEntries (sla_events world_overdue ! 0) (overlappedRuns env_late env_late world_overdue) = 2 \<and>
   breachNotices 0 (overlappedRuns env_late env_late world_overdue) = 2 \<and>
   timesMarked 0 [env_late, env_late] world_overdue = 1 \<and>
   breachEntries (sla_events world_overdue ! 0) (checkRuns [env_late, env_late] world_overdue) = 1 \<and>
   breachNotices 0 (checkRuns [env_late, env_late] world_overdue) = 1"
proof -
  have h: "0 < length (sla_events world_overdue)"
    "open_past_deadline env_late world_overdue 0"
    by (simp_all add: world_overdue_def world_empty_def env_late_def env_ok_def
        open_past_deadline_def)
  have o: "only_commitment world_overdue 0"
    by (simp add: only_commitment_def world_overdue_def world_empty_def)
  have n: "\<not> notified (sla_events world_overdue ! 0)"
    "truthy_str (WHATSAPP_SDR_GROUP env_late)"
    by (simp_all add: world_overdue_def world_empty_def env_late_def env_ok_def truthy_str_def)
  have z: "breachEntries (sla_events world_overdue ! 0) world_overdue = 0"
    "breachNotices 0 world_overdue = 0"
    by (simp_all add: breachEntries_def breachNotices_def world_overdue_def world_empty_def)
  from C9_overlap_double_fires [OF h(1) h(2) h(2)] o n z
  show ?thesis
    by (simp del: checkRuns.simps timesMarked.simps)
qed

text \<open>
  C9 as stated fails: in the schedule in which both runs read the store before either
  writes, the breach notice of the one overdue commitment is sent twice and two breach
  entries are written to the audit trail.
\<close>

theorem C9_counterexample:
  "outbox (overlappedRuns env_late env_late world_overdue) =
     [GroupMessage ''sdr'' (SlaBreachText 0 ''Ana'' ''11999887766'' response_5min 300000),
      GroupMessage ''sdr'' (SlaBreachText 0 ''Ana'' ''11999887766'' response_5min 300000)] \<and>
   map act_type (activities (overlappedRuns env_late env_late world_overdue)) =
     [t_sla_breach, t_sla_breach]"
  by (simp add: overlappedRuns_def selectBreached_def open_past_deadline_def
      breached_row_of_def breachOne_def update_row_def send_def truthy_str_def Let_def
      world_overdue_def world_empty_def lead_ana_def env_late_def env_ok_def)

text \<open>
  C10 (amended). Across any sequence of sequential runs \<open>checkSlaBreaches\<close> attempts the
  breach notice of a row at most once. The run that selects a row not yet notified marks
  it breached; it sends one notice if the SDR group is configured and none otherwise; it
  sets \<open>notified\<close> to true when no group is configured (although nothing was sent) or when
  the send resolves, and leaves it false when the send is rejected. Later runs never
  select the row again: whatever \<open>notified\<close> is after that run, it stays so, and no further
  notice is attempted for the row.
\<close>

theorem C10_single_attempt:
  assumes "i < length (sla_events w)"
  shows "breachNotices i (checkRuns es w) \<le> breachNotices i w + 1
       \<and> (open_past_deadline e w i \<and> \<not> notified (sla_events w ! i) \<longrightarrow>
            breached (sla_events (snd (checkSlaBreaches e w)) ! i) \<and>
            notified (sla_events (snd (checkSlaBreaches e w)) ! i) =
              notice_accepted e (breached_row_of w i) \<and>
            breachNotices i (snd (checkSlaBreaches e w)) =
              breachNotices i w + (if truthy_str (WHATSAPP_SDR_GROUP e) then 1 else 0) \<and>
            sla_events (checkRuns es (snd (checkSlaBreaches e w))) ! i =
              sla_events (snd (checkSlaBreaches e w)) ! i \<and>
            breachNotices i (checkRuns es (snd (checkSlaBreaches e w))) =
              breachNotices i (snd (checkSlaBreaches e w)))"
proof (intro conjI impI)
  show "breachNotices i (checkRuns es w) \<le> breachNotices i w + 1"
    by (rule runs_notices_le)
next
  assume a: "open_past_deadline e w i \<and> \<not> notified (sla_events w ! i)"
  show b: "breached (sla_events (snd (checkSlaBreaches e w)) ! i)"
    using assms a by (simp add: check_selected(1))
  show "notified (sla_events (snd (checkSlaBreaches e w)) ! i) =
          notice_accepted e (breached_row_of w i)"
    using assms a by (simp add: check_selected(1))
  show "breachNotices i (snd (checkSlaBreaches e w)) =
          breachNotices i w + (if truthy_str (WHATSAPP_SDR_GROUP e) then 1 else 0)"
    using assms a by (simp add: check_selected(2))
  show "sla_events (checkRuns es (snd (checkSlaBreaches e w))) ! i =
          sla_events (snd (checkSlaBreaches e w)) ! i"
       "breachNotices i (checkRuns es (snd (checkSlaBreaches e w))) =
          breachNotices i (snd (checkSlaBreaches e w))"
    using runs_breached [OF b, of es] by simp_all
qed

theorem C10_single_attempt_witness:
  "breachNotices 0 (checkRuns [env_down, env_late, env_late] world_overdue) \<le>
     breachNotices 0 world_overdue + 1 \<and>
   breached (sla_events (snd (checkSlaBreaches env_down world_overdue)) ! 0) \<and>
   notified (sla_events (snd (checkSlaBreaches env_down world_overdue)) ! 0) = False \<and>
   breachNotices 0 (snd (checkSlaBreaches env_down world_overdue)) =
     breachNotices 0 world_overdue + 1 \<and>
   sla_events (checkRuns [env_late, env_late] (snd (checkSlaBreaches env_down world_overdue))) ! 0 =
     sla_events (snd (checkSlaBreaches env_down world_overdue)) ! 0 \<and>
   breachNotices 0 (checkRuns [env_late, env_late] (snd (checkSlaBreaches env_down world_overdue))) =
     breachNotices 0 (snd (checkSlaBreaches env_down world_overdue))"
proof -
  have i: "0 < length (sla_events world_overdue)"
    by (simp add: world_overdue_def)
  have sel: "open_past_deadline env_down world_overdue 0 \<and>
             \<not> notified (sla_events world_overdue ! 0)"
    by (simp add: world_overdue_def world_empty_def env_down_def env_late_def env_ok_def
        open_past_deadline_def)
  have g: "truthy_str (WHATSAPP_SDR_GROUP env_down)"
    "\<not> notice_accepted env_down (breached_row_of world_overdue 0)"
    by (simp_all add: env_down_def env_late_def env_ok_def truthy_str_def notice_accepted_def)
  from C10_single_attempt [OF i, where e = env_down and es = "[env_late, env_late]"] sel g
    C10_single_attempt [OF i, where es = "[env_down, env_late, env_late]"]
  show ?thesis by simp
qed

text \<open>
  C10 as stated fails where no notification group is configured: the run marks the row
  breached, sends nothing, and sets \<open>notified\<close> to true.
\<close>

theorem C10_counterexample:
  "WHATSAPP_SDR_GROUP env_no_group = None \<and>
   breached (sla_events (snd (checkSlaBreaches env_no_group world_overdue)) ! 0) \<and>
   notified (sla_events (snd (checkSlaBreaches env_no_group world_overdue)) ! 0) \<and>
   outbox (snd (checkSlaBreaches env_no_group world_overdue)) = []"
  by (simp add: checkSlaBreaches_def selectBreached_def open_past_deadline_def
      breached_row_of_def breachOne_def update_row_def truthy_str_def Let_def
      world_overdue_def world_empty_def lead_ana_def env_no_group_def env_late_def env_ok_def)

text \<open>
  C3 (what the code does). The first query of \<open>runEscalationCheck\<close> selects
  \<open>sla_events.metadata\<close>, a column the table does not have, so the store rejects the
  statement and every run of \<open>runEscalationCheck\<close> ends with that error before its loop:
  it changes nothing and sends nothing. Over any number of cycles of \<open>checkSlaBreaches\<close>
  followed by \<open>runEscalationCheck\<close> the numbers of level-1 and level-2 escalation alerts of
  any commitment stay what they were; for the commitment stuck 45 minutes past its
  deadline, 100 cycles produce none of either.
\<close>

theorem C3_escalation_never_fires:
  "runEscalationCheck e w = (Inl (DbError (Some ''42703'')), w) \<and>
   level1Alerts i (slaCycles es w) = level1Alerts i w \<and>
   level2Alerts i (slaCycles es w) = level2Alerts i w \<and>
   level1Alerts 0 (slaCycles (replicate 100 env_late) world_overdue) = 0 \<and>
   level2Alerts 0 (slaCycles (replicate 100 env_late) world_overdue) = 0"
  by (simp add: runEscalationCheck_rejected slaCycles_alerts)
     (simp add: level1Alerts_def level2Alerts_def world_overdue_def world_empty_def)

text \<open>
  C4 (amended). Take an active execution at \<open>current_step = 0\<close> whose lead exists, over a
  sequence that has the steps 1 to \<open>n\<close> (\<open>n \<ge> 1\<close>) and no step \<open>n + 1\<close>, and \<open>n\<close> sequential
  runs of \<open>processDueFollowUps\<close> in each of which the clock has passed the scheduled time,
  the template engine renders and the transport accepts. Then after the \<open>n\<close> runs the
  execution is \<open>completed\<close> with \<open>current_step = n\<close>, completed by the run that handled the
  last step (its \<open>completed_at\<close> is that run's time), and the messages dispatched for it are
  one per step whose channel is \<open>whatsapp\<close>: exactly \<open>n\<close> when every step is a WhatsApp step.
  Every step, whatever its channel, is recorded in the audit trail: the lead has gained
  at least one \<open>follow_up\<close> activity carrying the step's sequence, order and channel
  (exactly one when no other execution is of the same lead and sequence). So a step whose
  channel is \<open>email\<close> is logged and advances the execution but dispatches nothing.
\<close>

theorem C4_sequence_exhaustion:
  assumes "i < length (follow_up_executions w)"
    "exec_lead_id (follow_up_executions w ! i) < length (leads w)"
    "exec_status (follow_up_executions w ! i) = active"
    "current_step (follow_up_executions w ! i) = 0"
    "next_run_at (follow_up_executions w ! i) = Some t"
    "has_steps (follow_up_steps w) (exec_sequence_id (follow_up_executions w ! i)) n"
    "0 < n" "length es = n"
    "clock_advanced (follow_up_steps w) (exec_sequence_id (follow_up_executions w ! i)) t 0 es"
    "list_all healthy es"
  shows "exec_status (follow_up_executions (dueRuns es w) ! i) = completed \<and>
         current_step (follow_up_executions (dueRuns es w) ! i) = int n \<and>
         next_run_at (follow_up_executions (dueRuns es w) ! i) = None \<and>
         exec_completed_at (follow_up_executions (dueRuns es w) ! i) = Some (now (last es)) \<and>
         dispatched i (dueRuns es w) =
           dispatched i w +
           whatsapp_steps (follow_up_steps w) (exec_sequence_id (follow_up_executions w ! i)) 0 n \<and>
         (list_all (whatsapp_step (follow_up_steps w)
                      (exec_sequence_id (follow_up_executions w ! i))) [1..<Suc n] \<longrightarrow>
            dispatched i (dueRuns es w) = dispatched i w + n) \<and>
         steps_logged (follow_up_steps w) (exec_sequence_id (follow_up_executions w ! i))
           (exec_lead_id (follow_up_executions w ! i)) 0 n w (dueRuns es w) \<and>
         (only_execution w i \<longrightarrow>
            steps_logged_once (follow_up_steps w) (exec_sequence_id (follow_up_executions w ! i))
              (exec_lead_id (follow_up_executions w ! i)) 0 n w (dueRuns es w))"
proof -
  have c: "current_step (follow_up_executions w ! i) = int 0"
    using assms(4) by simp
  have l: "length es = n - 0"
    using assms(8) by simp
  note logged = runs_logged [OF assms(1,2,3) refl c assms(5,6,7) l assms(9,10)]
  note once = runs_logged_once [OF assms(1,2,3) refl c assms(5,6,7) l assms(9,10)]
  from runs_complete [OF assms(1,2,3) refl c assms(5,6,7) l assms(9,10)] logged once
  show ?thesis
    by (simp add: whatsapp_steps_all)
qed

theorem C4_sequence_exhaustion_witness:
  "exec_status (follow_up_executions (dueRuns [env_due, env_next_day] world_two_steps) ! 0) = completed \<and>
   current_step (follow_up_executions (dueRuns [env_due, env_next_day] world_two_steps) ! 0) = 2 \<and>
   exec_completed_at (follow_up_executions (dueRuns [env_due, env_next_day] world_two_steps) ! 0) =
     Some 91000000 \<and>
   dispatched 0 (dueRuns [env_due, env_next_day] world_two_steps) = 2 \<and>
   stepEntries 0
     \<lparr>step_sequence_id = 0, step_order = 1, delay_minutes = 60, step_channel = ch_whatsapp,
       template = ''Ola ''\<rparr>
     (dueRuns [env_due, env_next_day] world_two_steps) = 1 \<and>
   stepEntries 0
     \<lparr>step_sequence_id = 0, step_order = 2, delay_minutes = 1440,
       step_channel = ch_whatsapp, template = ''Tudo bem, ''\<rparr>
     (dueRuns [env_due, env_next_day] world_two_steps) = 1"
proof -
  have x: "follow_up_executions world_two_steps ! 0 = execution_0"
    by (simp add: world_two_steps_def)
  have s: "follow_up_steps world_two_steps =
          [\<lparr>step_sequence_id = 0, step_order = 1, delay_minutes = 60, step_channel = ch_whatsapp,
            template = ''Ola ''\<rparr>,
           \<lparr>step_sequence_id = 0, step_order = 2, delay_minutes = 1440,
            step_channel = ch_whatsapp, template = ''Tudo bem, ''\<rparr>]"
    by (simp add: world_two_steps_def)
  have h: "healthy env_due" "healthy env_next_day"
    by (simp_all add: healthy_def env_due_def env_next_day_def env_ok_def)
  have 1: "0 < length (follow_up_executions world_two_steps)"
    by (simp add: world_two_steps_def)
  have 2: "exec_lead_id (follow_up_executions world_two_steps ! 0) < length (leads world_two_steps)"
    unfolding x by (simp add: execution_0_def world_two_steps_def)
  have 3: "exec_status (follow_up_executions world_two_steps ! 0) = active"
    "current_step (follow_up_executions world_two_steps ! 0) = 0"
    "next_run_at (follow_up_executions world_two_steps ! 0) = Some 3600000"
    unfolding x by (simp_all add: execution_0_def)
  have q: "exec_sequence_id (follow_up_executions world_two_steps ! 0) = 0"
    "exec_lead_id (follow_up_executions world_two_steps ! 0) = 0"
    unfolding x by (simp_all add: execution_0_def)
  have 4: "has_steps (follow_up_steps world_two_steps)
             (exec_sequence_id (follow_up_executions world_two_steps ! 0)) 2"
    unfolding q s by (simp add: has_steps_def findStep_def numeral_2_eq_2)
  have 5: "clock_advanced (follow_up_steps world_two_steps)
             (exec_sequence_id (follow_up_executions world_two_steps ! 0)) 3600000 0
             [env_due, env_next_day]"
    unfolding q s
    by (simp add: delay_of_def findStep_def env_due_def env_next_day_def env_ok_def)
  have 6: "list_all (whatsapp_step (follow_up_steps world_two_steps)
                      (exec_sequence_id (follow_up_executions world_two_steps ! 0))) [1..<Suc 2]"
    unfolding q s by (simp add: whatsapp_step_def findStep_def numeral_2_eq_2)
  have 7: "0 < (2::nat)" "length [env_due, env_next_day] = 2"
    by simp_all
  have 8: "list_all healthy [env_due, env_next_day]"
    using h by simp
  from C4_sequence_exhaustion [OF 1 2 3 4 7 5 8] 6
  have r: "exec_status (follow_up_executions (dueRuns [env_due, env_next_day] world_two_steps) ! 0) = completed"
    "current_step (follow_up_executions (dueRuns [env_due, env_next_day] world_two_steps) ! 0) = int 2"
    "exec_completed_at (follow_up_executions (dueRuns [env_due, env_next_day] world_two_steps) ! 0) =
       Some (now (last [env_due, env_next_day]))"
    "dispatched 0 (dueRuns [env_due, env_next_day] world_two_steps) =
       dispatched 0 world_two_steps + 2"
    "only_execution world_two_steps 0 \<longrightarrow>
     steps_logged_once (follow_up_steps world_two_steps)
       (exec_sequence_id (follow_up_executions world_two_steps ! 0))
       (exec_lead_id (follow_up_executions world_two_steps ! 0)) 0 2 world_two_steps
       (dueRuns [env_due, env_next_day] world_two_steps)"
    by blast+
  have o: "only_execution world_two_steps 0"
    by (simp add: only_execution_def world_two_steps_def)
  have u: "[Suc 0..<Suc 2] = [1, 2]"
    by (simp add: upt_rec)
  have a: "activities world_two_steps = []"
    by (simp add: world_two_steps_def world_empty_def)
  have "stepEntries 0
         \<lparr>step_sequence_id = 0, step_order = 1, delay_minutes = 60, step_channel = ch_whatsapp,
           template = ''Ola ''\<rparr>
         (dueRuns [env_due, env_next_day] world_two_steps) = 1"
    "stepEntries 0
         \<lparr>step_sequence_id = 0, step_order = 2, delay_minutes = 1440,
           step_channel = ch_whatsapp, template = ''Tudo bem, ''\<rparr>
         (dueRuns [env_due, env_next_day] world_two_steps) = 1"
    using r(5) o unfolding steps_logged_once_def q s u
    by (simp_all add: findStep_def stepEntries_def a del: dueRuns.simps)
  moreover have "dispatched 0 world_two_steps = 0"
    by (simp add: dispatched_def world_two_steps_def world_empty_def)
  moreover have "now (last [env_due, env_next_day]) = 91000000"
    by (simp add: env_next_day_def)
  ultimately show ?thesis
    using r(1-4) by (simp del: dueRuns.simps)
qed

text \<open>
  C4 as stated fails for a sequence with a step on the \<open>email\<close> channel (which the schema
  admits): the one run of a one-step sequence completes the execution at
  \<open>current_step = 1\<close> with no message dispatched; the step is logged as a \<open>follow_up\<close>
  activity all the same.
\<close>

theorem C4_counterexample:
  "has_steps (follow_up_steps world_email_step) 0 1 \<and>
   exec_status (follow_up_executions (dueRuns [env_due] world_email_step) ! 0) = completed \<and>
   current_step (follow_up_executions (dueRuns [env_due] world_email_step) ! 0) = 1 \<and>
   outbox (dueRuns [env_due] world_email_step) = [] \<and>
   dispatched 0 (dueRuns [env_due] world_email_step) = 0 \<and>
   map act_type (activities (dueRuns [env_due] world_email_step)) = [t_follow_up]"
  by (simp add: has_steps_def findStep_def processDueFollowUps_def selectDue_def is_due_def
      due_execution_of_def processOne_def update_row_def dispatched_def Let_def
      world_email_step_def execution_0_def world_empty_def lead_ana_def env_due_def env_ok_def)

end
